theory Spec2Isabelle
  imports Complex_Main "HOL-Library.Word" "HOL-Library.Signed_Division"
begin

section \<open>TNLMeans: data model\<close>

text \<open>
  The development follows \<^verbatim>\<open>src/TNLMeans.cpp\<close>.  C++ \<^verbatim>\<open>int\<close> values are modelled as
  unbounded \<^typ>\<open>int\<close> (frame geometry and radii stay far from the 32-bit limits), the
  truncating remainder \<^verbatim>\<open>%\<close> as \<open>smod\<close>, \<^verbatim>\<open>uint8_t\<close> samples as \<^typ>\<open>8 word\<close> and
  \<^verbatim>\<open>double\<close> values as \<^typ>\<open>real\<close> (exact arithmetic; rounding, overflow to infinity,
  underflow and NaN of IEEE doubles are not part of the model).
\<close>

subsection \<open>Planes, frames and accumulators\<close>

text \<open>
  A plane is addressed as in the source, by byte offset from its first sample: the sample
  in column \<open>c\<close> of row \<open>r\<close> is at offset \<open>r * pitch + c\<close>.  The accumulator arrays of
  \<^verbatim>\<open>SDATA\<close> are addressed by \<open>r * width + c\<close>.
\<close>

type_synonym bytes = "int \<Rightarrow> 8 word"

text \<open>The arrays \<^verbatim>\<open>sums\<close>, \<^verbatim>\<open>weights\<close> and \<^verbatim>\<open>wmaxs\<close> of \<^verbatim>\<open>SDATA\<close>.\<close>

record SDATA =
  sums_d :: "int \<Rightarrow> real"
  weights_d :: "int \<Rightarrow> real"
  wmaxs_d :: "int \<Rightarrow> real"

text \<open>
  Modelled from the spec: \<^verbatim>\<open>fill_zero_d\<close> is declared in \<^verbatim>\<open>TNLMeans.h\<close> (not part of the
  sources at hand); it zeroes the first \<open>n\<close> entries of an accumulator array.
\<close>

definition fill_zero_d :: "(int \<Rightarrow> real) \<Rightarrow> int \<Rightarrow> (int \<Rightarrow> real)" where
  "fill_zero_d arr n = (\<lambda>i. if 0 \<le> i \<and> i < n then 0 else arr i)"

text \<open>
  What the frame interface of the host gives for one plane of a frame (\<^verbatim>\<open>getStride\<close>,
  \<^verbatim>\<open>getFrameWidth\<close>, \<^verbatim>\<open>getFrameHeight\<close>, \<^verbatim>\<open>getReadPtr\<close> or \<^verbatim>\<open>getWritePtr\<close>); a frame
  (\<^verbatim>\<open>VSFrameRef\<close>) is the list of its planes.
\<close>

record VSPlane =
  p_stride :: int
  p_width :: int
  p_height :: int
  p_data :: bytes

type_synonym VSFrame = "VSPlane list"

subsection \<open>The frame cache (nlFrame, nlCache)\<close>

text \<open>
  A cache slot: the frame number \<^verbatim>\<open>fnum\<close>, the source frame \<^verbatim>\<open>pf\<close> (\<open>None\<close> for
  \<^verbatim>\<open>nullptr\<close>), one \<^verbatim>\<open>SDATA\<close> per plane in \<^verbatim>\<open>ds\<close> (none in block mode) and the flag
  array \<^verbatim>\<open>dsa\<close>.
\<close>

record nlFrame =
  fnum :: int
  pf :: "VSFrame option"
  ds :: "SDATA list"
  dsa :: "int \<Rightarrow> int"

record nlCache =
  frames :: "nlFrame list"
  start_pos :: int
  size_fc :: int

text \<open>
  \<^verbatim>\<open>nlFrame::nlFrame\<close> sets \<^verbatim>\<open>fnum = -20\<close> and \<^verbatim>\<open>pf = nullptr\<close>; outside block mode it
  allocates one \<^verbatim>\<open>SDATA\<close> per plane, whose arrays hold whatever the allocation left there
  (\<open>mem\<close>), and zeroes the flags.
\<close>

definition nlFrame_new :: "bool \<Rightarrow> int \<Rightarrow> SDATA \<Rightarrow> nlFrame" where
  "nlFrame_new useblocks nplanes mem =
     \<lparr> fnum = -20, pf = None,
       ds = (if useblocks then [] else replicate (nat nplanes) mem),
       dsa = (\<lambda>i. 0) \<rparr>"

text \<open>
  \<^verbatim>\<open>nlCache::nlCache(_size, ...)\<close>: both \<^verbatim>\<open>start_pos\<close> and \<^verbatim>\<open>size\<close> start at \<open>-20\<close>; for a
  positive \<^verbatim>\<open>_size\<close> the rotation offset becomes 0 and \<^verbatim>\<open>_size\<close> frames are created.
\<close>

definition nlCache_new :: "int \<Rightarrow> bool \<Rightarrow> int \<Rightarrow> SDATA \<Rightarrow> nlCache" where
  "nlCache_new n useblocks nplanes mem =
     (if n > 0 then \<lparr> frames = replicate (nat n) (nlFrame_new useblocks nplanes mem),
                       start_pos = 0, size_fc = n \<rparr>
      else \<lparr> frames = [], start_pos = -20, size_fc = -20 \<rparr>)"

text \<open>
  \<^verbatim>\<open>nlCache::clearDS\<close>: the accumulators of every plane are zeroed over the
  \<open>width * height\<close> cells of that plane of the slot's frame, and the \<^verbatim>\<open>size\<close> flags are
  cleared.
\<close>

definition clear_plane :: "VSFrame \<Rightarrow> SDATA list \<Rightarrow> nat \<Rightarrow> SDATA" where
  "clear_plane f dl i =
     (let res = p_width (f ! i) * p_height (f ! i)
      in \<lparr> sums_d = fill_zero_d (sums_d (dl ! i)) res,
           weights_d = fill_zero_d (weights_d (dl ! i)) res,
           wmaxs_d = fill_zero_d (wmaxs_d (dl ! i)) res \<rparr>)"

definition clearDS :: "int \<Rightarrow> nlFrame \<Rightarrow> nlFrame" where
  "clearDS sz nl =
     nl\<lparr> ds := map (clear_plane (case pf nl of Some f \<Rightarrow> f | None \<Rightarrow> []) (ds nl))
                  [0..<length (ds nl)],
         dsa := (\<lambda>i. if 0 \<le> i \<and> i < sz then 0 else dsa nl i) \<rparr>"

text \<open>
  The inner loop of \<^verbatim>\<open>resetCacheStart\<close>: the first physical slot \<open>i\<close> (counting from
  \<open>i\<close>) whose frame number is \<open>j\<close>.
\<close>

fun find_fnum :: "int \<Rightarrow> int \<Rightarrow> nlFrame list \<Rightarrow> int option" where
  "find_fnum j i [] = None"
| "find_fnum j i (f # fs) = (if fnum f = j then Some i else find_fnum j (i + 1) fs)"

text \<open>The assignment to \<^verbatim>\<open>start_pos\<close> with its two wrap-around corrections.\<close>

definition wrap_start :: "int \<Rightarrow> int \<Rightarrow> int" where
  "wrap_start sz s = (if s < 0 then s + sz else if s \<ge> sz then s - sz else s)"

text \<open>
  The outer loop over \<open>j = first, ..., lastj\<close>; it returns at the first hit and leaves
  the cache unchanged when no cached frame number lies in the window.
\<close>

fun reset_scan :: "nlCache \<Rightarrow> int \<Rightarrow> int list \<Rightarrow> nlCache" where
  "reset_scan fc first [] = fc"
| "reset_scan fc first (j # js) =
     (case find_fnum j 0 (take (nat (size_fc fc)) (frames fc)) of
        Some i \<Rightarrow> fc\<lparr> start_pos := wrap_start (size_fc fc) (i - j + first) \<rparr>
      | None \<Rightarrow> reset_scan fc first js)"

definition resetCacheStart :: "nlCache \<Rightarrow> int \<Rightarrow> int \<Rightarrow> nlCache" where
  "resetCacheStart fc first lastj = reset_scan fc first [first..lastj]"

text \<open>\<^verbatim>\<open>getCachePos\<close>: \<^verbatim>\<open>(start_pos + n) % size\<close> with C++'s truncating remainder.\<close>

definition getCachePos :: "nlCache \<Rightarrow> int \<Rightarrow> int" where
  "getCachePos fc n = (start_pos fc + n) smod (size_fc fc)"

subsection \<open>Frame numbers handed to the frame source\<close>

definition mapn :: "int \<Rightarrow> int \<Rightarrow> int" where
  "mapn numFrames n = (if n < 0 then 0 else if n \<ge> numFrames then numFrames - 1 else n)"

text \<open>\<^verbatim>\<open>RequestFrame\<close>: the indices passed to \<^verbatim>\<open>requestFrameFilter\<close>, in order.\<close>

definition RequestFrame :: "int \<Rightarrow> int \<Rightarrow> int \<Rightarrow> int list" where
  "RequestFrame numFrames Az n = map (mapn numFrames) [n - Az..n + Az]"

text \<open>\<^verbatim>\<open>newVideoFrame\<close> and the spatial variants fetch the single source frame \<^verbatim>\<open>mapn(n)\<close>.\<close>

definition fetch_single :: "int \<Rightarrow> int \<Rightarrow> int list" where
  "fetch_single numFrames n = [mapn numFrames n]"

text \<open>
  The refill loop at the head of \<^verbatim>\<open>GetFrameWZ\<close> and \<^verbatim>\<open>GetFrameWZB\<close>: for every window
  position whose slot does not hold frame \<open>i\<close>, frame \<^verbatim>\<open>mapn(i)\<close> of the clip is fetched
  into the slot and the slot is relabelled \<open>i\<close>; \<^verbatim>\<open>GetFrameWZ\<close> then clears the slot's
  accumulators and flags (\<open>clr\<close>), \<^verbatim>\<open>GetFrameWZB\<close> does not.  The result is the cache and
  the fetched indices, in order.
\<close>

definition load_slot :: "int \<Rightarrow> (int \<Rightarrow> VSFrame) \<Rightarrow> bool \<Rightarrow> int \<Rightarrow> int \<Rightarrow> nlFrame \<Rightarrow> nlFrame" where
  "load_slot numFrames clip clr sz i nl =
     (let nl1 = nl\<lparr> pf := Some (clip (mapn numFrames i)) \<rparr>;
          nl2 = nl1\<lparr> fnum := i \<rparr>
      in if clr then clearDS sz nl2 else nl2)"

fun refill ::
  "int \<Rightarrow> int \<Rightarrow> int \<Rightarrow> (int \<Rightarrow> VSFrame) \<Rightarrow> bool \<Rightarrow> int list \<Rightarrow> nlCache \<Rightarrow> nlCache \<times> int list" where
  "refill numFrames Az n clip clr [] fc = (fc, [])"
| "refill numFrames Az n clip clr (i # is) fc =
     (let pos = nat (getCachePos fc (i - n + Az)) in
      if fnum (frames fc ! pos) \<noteq> i
      then (let fc' = fc\<lparr> frames := (frames fc)
                        [pos := load_slot numFrames clip clr (size_fc fc) i (frames fc ! pos)] \<rparr>;
                (fc'', req) = refill numFrames Az n clip clr is fc'
            in (fc'', mapn numFrames i # req))
      else refill numFrames Az n clip clr is fc)"

definition temporal_fetches ::
  "int \<Rightarrow> int \<Rightarrow> int \<Rightarrow> (int \<Rightarrow> VSFrame) \<Rightarrow> bool \<Rightarrow> nlCache \<Rightarrow> int list" where
  "temporal_fetches numFrames Az n clip clr fc =
     snd (refill numFrames Az n clip clr [n - Az..n + Az] (resetCacheStart fc (n - Az) (n + Az)))
       @ fetch_single numFrames n"

text \<open>The temporal bounds \<^verbatim>\<open>startz\<close> and \<^verbatim>\<open>stopz\<close> of the accumulation loops.\<close>

definition startz :: "int \<Rightarrow> int \<Rightarrow> int" where
  "startz Az n = Az - min n Az"

definition stopz :: "int \<Rightarrow> int \<Rightarrow> int \<Rightarrow> int" where
  "stopz Az numFrames n = Az + min (numFrames - n - 1) Az"

section \<open>Construction of the engine\<close>

subsection \<open>Video information and the engine record\<close>

datatype VSColorFamily = cmGray | cmRGB | cmYUV | cmYCoCg | cmCompat

record VSFormat =
  colorFamily :: VSColorFamily
  bitsPerSample :: int
  numPlanes :: int

record VSVideoInfo =
  vi_format :: VSFormat
  vi_width :: int
  vi_height :: int
  vi_numFrames :: int

text \<open>The two exception types thrown by the constructor, each with its message.\<close>

datatype TNLMeans_error = bad_param string | bad_alloc string

text \<open>
  One worker slot (\<^verbatim>\<open>nlThread\<close>).  Each of its pointers is \<^verbatim>\<open>nullptr\<close> (\<open>None\<close>) until the
  constructor allocates it: the frame cache \<^verbatim>\<open>fc\<close> only when \<open>Az \<noteq> 0\<close>, the block
  scratch buffers \<^verbatim>\<open>sumsb\<close> and \<^verbatim>\<open>weightsb\<close> only when \<open>Bx \<noteq> 0\<close> or \<open>By \<noteq> 0\<close>, the pixel
  accumulators \<^verbatim>\<open>ds\<close> only when \<open>Bx = By = 0\<close> and \<open>Az = 0\<close>.  The Gaussian table \<^verbatim>\<open>gw\<close> is
  always allocated.
\<close>

record nlThread =
  t_fc :: "nlCache option"
  t_sumsb :: "(int \<Rightarrow> real) option"
  t_weightsb :: "(int \<Rightarrow> real) option"
  t_ds :: "SDATA option"
  t_gw :: "real list"

text \<open>
  The members of \<^verbatim>\<open>TNLMeans\<close>.  The bandwidths \<^verbatim>\<open>a\<close> and \<^verbatim>\<open>h\<close> are the fields \<open>a_p\<close> and
  \<open>h_p\<close>.
\<close>

record TNLMeans =
  Ax :: int
  Ay :: int
  Az :: int
  Sx :: int
  Sy :: int
  Bx :: int
  By :: int
  a_p :: real
  h_p :: real
  ssd :: bool
  vi :: VSVideoInfo
  numThreads :: int
  h2in :: real
  hin :: real
  Sxd :: int
  Syd :: int
  Sxa :: int
  Bxd :: int
  Byd :: int
  Bxa :: int
  Axd :: int
  Ayd :: int
  Axa :: int
  Azdm1 :: int
  a2 :: real
  threads :: "nlThread list"

subsection \<open>The Gaussian table\<close>

text \<open>The clamped offset \<^verbatim>\<open>m\<close> (and \<^verbatim>\<open>n\<close>) of the table loop, for block radius \<open>b\<close>.\<close>

definition gw_clamp :: "int \<Rightarrow> int \<Rightarrow> int" where
  "gw_clamp j b = (if j < 0 then min (j + b) 0 else max (j - b) 0)"

text \<open>The table is filled row by row: \<open>j = -Sy, ..., Sy\<close> outside, \<open>k = -Sx, ..., Sx\<close> inside.\<close>

definition build_gw :: "int \<Rightarrow> int \<Rightarrow> int \<Rightarrow> int \<Rightarrow> real \<Rightarrow> real list" where
  "build_gw sx sy bx byy asq =
     concat (map (\<lambda>j. map (\<lambda>k.
        exp (- (real_of_int (gw_clamp j byy * gw_clamp j byy + gw_clamp k bx * gw_clamp k bx)
                / (2 * asq)))) [- sx..sx]) [- sy..sy])"

subsection \<open>The constructor\<close>

text \<open>
  Allocation is the one effect of the constructor that can fail; \<open>alloc s\<close> tells whether
  the allocation reported under the name \<open>s\<close> succeeds.  One slot is set up per
  iteration of the thread loop; the first failing allocation ends the construction.  A
  fresh array holds whatever the allocation left there: the arrays of \<open>mem\<close>.
\<close>

definition new_thread ::
  "(string \<Rightarrow> bool) \<Rightarrow> int \<Rightarrow> int \<Rightarrow> int \<Rightarrow> int \<Rightarrow> int \<Rightarrow> real \<Rightarrow> int \<Rightarrow> SDATA
     \<Rightarrow> TNLMeans_error + nlThread" where
  "new_thread alloc az sx sy bx byy asq np mem =
     (if az \<noteq> 0 \<and> \<not> alloc ''nlFrame'' then Inl (bad_alloc ''nlFrame'')
      else if az \<noteq> 0 \<and> \<not> alloc ''nlCache'' then Inl (bad_alloc ''nlCache'')
      else if (bx \<noteq> 0 \<or> byy \<noteq> 0) \<and> \<not> alloc ''sumsb'' then Inl (bad_alloc ''sumsb'')
      else if (bx \<noteq> 0 \<or> byy \<noteq> 0) \<and> \<not> alloc ''weightsb'' then Inl (bad_alloc ''weightsb'')
      else if \<not> (bx \<noteq> 0 \<or> byy \<noteq> 0) \<and> az = 0 \<and> \<not> alloc ''sums'' then Inl (bad_alloc ''sums'')
      else if \<not> (bx \<noteq> 0 \<or> byy \<noteq> 0) \<and> az = 0 \<and> \<not> alloc ''weights'' then Inl (bad_alloc ''weights'')
      else if \<not> (bx \<noteq> 0 \<or> byy \<noteq> 0) \<and> az = 0 \<and> \<not> alloc ''wmaxs'' then Inl (bad_alloc ''wmaxs'')
      else if \<not> alloc ''gw'' then Inl (bad_alloc ''gw'')
      else Inr \<lparr> t_fc = (if az \<noteq> 0 then Some (nlCache_new (az * 2 + 1) (bx > 0 \<or> byy > 0) np mem) else None),
                 t_sumsb = (if bx \<noteq> 0 \<or> byy \<noteq> 0 then Some (sums_d mem) else None),
                 t_weightsb = (if bx \<noteq> 0 \<or> byy \<noteq> 0 then Some (weights_d mem) else None),
                 t_ds = (if \<not> (bx \<noteq> 0 \<or> byy \<noteq> 0) \<and> az = 0 then Some mem else None),
                 t_gw = build_gw sx sy bx byy asq \<rparr>)"

fun new_threads ::
  "nat \<Rightarrow> (string \<Rightarrow> bool) \<Rightarrow> int \<Rightarrow> int \<Rightarrow> int \<Rightarrow> int \<Rightarrow> int \<Rightarrow> real \<Rightarrow> int \<Rightarrow> SDATA
     \<Rightarrow> TNLMeans_error + nlThread list" where
  "new_threads 0 alloc az sx sy bx byy asq np mem = Inr []"
| "new_threads (Suc k) alloc az sx sy bx byy asq np mem =
     (case new_thread alloc az sx sy bx byy asq np mem of
        Inl err \<Rightarrow> Inl err
      | Inr t \<Rightarrow> (case new_threads k alloc az sx sy bx byy asq np mem of
                   Inl err \<Rightarrow> Inl err
                 | Inr ts \<Rightarrow> Inr (t # ts)))"

text \<open>
  The parameter checks at the head of \<^verbatim>\<open>TNLMeans::TNLMeans\<close>, in the order of the source:
  the message of the first \<^verbatim>\<open>bad_param\<close> thrown, if any.  The doubles \<^verbatim>\<open>a\<close> and \<^verbatim>\<open>h\<close> are
  given by their real values; a NaN argument, for which both comparisons \<^verbatim>\<open>h <= 0.0\<close> and
  \<^verbatim>\<open>a <= 0.0\<close> of the source are false, has no counterpart among the reals and is not
  covered.
\<close>

definition check_params ::
  "int \<Rightarrow> int \<Rightarrow> int \<Rightarrow> int \<Rightarrow> int \<Rightarrow> int \<Rightarrow> int \<Rightarrow> real \<Rightarrow> real \<Rightarrow> VSVideoInfo \<Rightarrow> string option" where
  "check_params ax ay az sx sy bx byy av hv vinfo =
     (if colorFamily (vi_format vinfo) = cmCompat then Some ''only planar formats are supported''
      else if bitsPerSample (vi_format vinfo) \<noteq> 8 then Some ''only 8-bit formats are supported''
      else if hv \<le> 0 then Some ''h must be greater than 0''
      else if av \<le> 0 then Some ''a must be greater than 0''
      else if ax < 0 then Some ''ax must be greater than or equal to 0''
      else if ay < 0 then Some ''ay must be greater than or equal to 0''
      else if az < 0 then Some ''az must be greater than or equal to 0''
      else if bx < 0 then Some ''bx must be greater than or equal to 0''
      else if byy < 0 then Some ''by must be greater than or equal to 0''
      else if sx < 0 then Some ''sx must be greater than or equal to 0''
      else if sy < 0 then Some ''sy must be greater than or equal to 0''
      else if sx < bx then Some ''sx must be greater than or equal to bx''
      else if sy < byy then Some ''sy must be greater than or equal to by''
      else None)"

text \<open>
  \<^verbatim>\<open>TNLMeans::TNLMeans\<close>: the checks, the derived constants, then the worker slots.  A
  thrown exception is the result \<open>Inl\<close>, and then no engine value exists.
\<close>

definition TNLMeans_new ::
  "(string \<Rightarrow> bool) \<Rightarrow> int \<Rightarrow> int \<Rightarrow> int \<Rightarrow> int \<Rightarrow> int \<Rightarrow> int \<Rightarrow> int \<Rightarrow> real \<Rightarrow> real \<Rightarrow> bool
     \<Rightarrow> VSVideoInfo \<Rightarrow> int \<Rightarrow> SDATA \<Rightarrow> TNLMeans_error + TNLMeans" where
  "TNLMeans_new alloc ax ay az sx sy bx byy av hv sd vinfo nthreads mem =
     (case check_params ax ay az sx sy bx byy av hv vinfo of
        Some msg \<Rightarrow> Inl (bad_param msg)
      | None \<Rightarrow>
          if \<not> alloc ''threads'' then Inl (bad_alloc ''threads'')
          else (case new_threads (nat nthreads) alloc az sx sy bx byy (av * av)
                  (numPlanes (vi_format vinfo)) mem of
              Inl err \<Rightarrow> Inl err
            | Inr ts \<Rightarrow> Inr \<lparr> Ax = ax, Ay = ay, Az = az, Sx = sx, Sy = sy, Bx = bx, By = byy,
                a_p = av, h_p = hv, ssd = sd, vi = vinfo, numThreads = nthreads,
                h2in = - 1 / (hv * hv), hin = - 1 / hv,
                Sxd = sx * 2 + 1, Syd = sy * 2 + 1, Sxa = (sx * 2 + 1) * (sy * 2 + 1),
                Bxd = bx * 2 + 1, Byd = byy * 2 + 1, Bxa = (bx * 2 + 1) * (byy * 2 + 1),
                Axd = ax * 2 + 1, Ayd = ay * 2 + 1, Axa = (ax * 2 + 1) * (ay * 2 + 1),
                Azdm1 = az * 2, a2 = av * av, threads = ts \<rparr>))"

subsection \<open>The weight of a patch distance\<close>

text \<open>
  Modelled from the spec: \<^verbatim>\<open>GetSADWeight\<close> and \<^verbatim>\<open>GetSSDWeight\<close> are declared in
  \<^verbatim>\<open>TNLMeans.h\<close>, which is not part of the sources at hand.  The specification gives the
  weight as \<open>exp (scale * diff / gweights)\<close>, with the scale \<^verbatim>\<open>hin\<close> for the absolute and
  \<^verbatim>\<open>h2in\<close> for the squared differences; both scales are computed by the constructor
  above.
\<close>

definition GetSADWeight :: "TNLMeans \<Rightarrow> real \<Rightarrow> real \<Rightarrow> real" where
  "GetSADWeight e diff gweights = exp (hin e * diff / gweights)"

definition GetSSDWeight :: "TNLMeans \<Rightarrow> real \<Rightarrow> real \<Rightarrow> real" where
  "GetSSDWeight e diff gweights = exp (h2in e * diff / gweights)"

text \<open>The selection \<^verbatim>\<open>ssd ? GetSSDWeight(...) : GetSADWeight(...)\<close> of the frame functions.\<close>

definition patch_weight :: "TNLMeans \<Rightarrow> real \<Rightarrow> real \<Rightarrow> real" where
  "patch_weight e diff gweights =
     (if ssd e then GetSSDWeight e diff gweights else GetSADWeight e diff gweights)"

section \<open>Planes, accumulators and the patch distance\<close>

text \<open>\<^verbatim>\<open>std::numeric_limits<double>::epsilon()\<close>.\<close>

definition DBL_EPSILON :: real where
  "DBL_EPSILON = 1 / 2 ^ 52"

text \<open>
  The clipped patch bounds: \<open>clip_lo\<close> is the expression of \<^verbatim>\<open>yT\<close> and \<^verbatim>\<open>xL\<close>, \<open>clip_hi\<close>
  that of \<^verbatim>\<open>yB\<close>, \<^verbatim>\<open>xR\<close>, \<^verbatim>\<open>yBb\<close> and \<^verbatim>\<open>xRb\<close>.
\<close>

definition clip_lo :: "int \<Rightarrow> int \<Rightarrow> int \<Rightarrow> int" where
  "clip_lo s u y = - min (min s u) y"

definition clip_hi :: "int \<Rightarrow> int \<Rightarrow> int \<Rightarrow> int \<Rightarrow> int" where
  "clip_hi s m1 u y = min (min s (m1 - u)) (m1 - y)"

text \<open>
  Modelled from the spec: \<^verbatim>\<open>GetSAD\<close> and \<^verbatim>\<open>GetSSD\<close> are declared in \<^verbatim>\<open>TNLMeans.h\<close>; the
  specification gives them as \<open>kernel[offset] * |s1 - s2|\<close> and
  \<open>kernel[offset] * (s1 - s2)\<^sup>2\<close>.  A pointer is a buffer with an offset; \<open>k\<close> is the
  index applied to all three pointers.
\<close>

definition GetSAD :: "bytes \<Rightarrow> int \<Rightarrow> bytes \<Rightarrow> int \<Rightarrow> real list \<Rightarrow> int \<Rightarrow> int \<Rightarrow> real" where
  "GetSAD p1 s1 p2 s2 gwt gwT k =
     gwt ! nat (gwT + k) * real_of_int \<bar>uint (p1 (s1 + k)) - uint (p2 (s2 + k))\<bar>"

definition GetSSD :: "bytes \<Rightarrow> int \<Rightarrow> bytes \<Rightarrow> int \<Rightarrow> real list \<Rightarrow> int \<Rightarrow> int \<Rightarrow> real" where
  "GetSSD p1 s1 p2 s2 gwt gwT k =
     gwt ! nat (gwT + k)
       * real_of_int ((uint (p1 (s1 + k)) - uint (p2 (s2 + k))) * (uint (p1 (s1 + k)) - uint (p2 (s2 + k))))"

text \<open>
  The two inner loops over \<open>j = yT, ..., yB\<close> and \<open>k = xL, ..., xR\<close> shared by the four frame
  functions; the result is \<^verbatim>\<open>(diff, gweights)\<close>.  The centre is \<open>(x, y)\<close> in \<open>pf2p\<close>, the
  candidate \<open>(v, u)\<close> in \<open>pf1p\<close>.  In row \<open>j\<close> the pointers \<^verbatim>\<open>s1\<close>, \<^verbatim>\<open>s2\<close> and \<^verbatim>\<open>gwT\<close>,
  advanced by \<^verbatim>\<open>pitch\<close>, \<^verbatim>\<open>pitch\<close> and \<^verbatim>\<open>Sxd\<close> per row from their start in row \<^verbatim>\<open>yT\<close>,
  stand at \<open>(u + j) * pitch + v\<close>, \<open>(y + j) * pitch + x\<close> and \<open>(j + Sy) * Sxd + Sx\<close>.
\<close>

definition patch_diff ::
  "TNLMeans \<Rightarrow> real list \<Rightarrow> bytes \<Rightarrow> bytes \<Rightarrow> int \<Rightarrow> int \<Rightarrow> int \<Rightarrow> int \<Rightarrow> int \<Rightarrow> int \<Rightarrow> int
     \<Rightarrow> real \<times> real" where
  "patch_diff e gwt pf1p pf2p pitch heightm1 widthm1 x y u v =
     (let yT = clip_lo (Sy e) u y; yB = clip_hi (Sy e) heightm1 u y;
          xL = clip_lo (Sx e) v x; xR = clip_hi (Sx e) widthm1 v x
      in fold (\<lambda>j. fold (\<lambda>k (diff, gweights).
            (diff + (if ssd e
                     then GetSSD pf1p ((u + j) * pitch + v) pf2p ((y + j) * pitch + x) gwt
                            ((j + Sy e) * Sxd e + Sx e) k
                     else GetSAD pf1p ((u + j) * pitch + v) pf2p ((y + j) * pitch + x) gwt
                            ((j + Sy e) * Sxd e + Sx e) k),
             gweights + gwt ! nat ((j + Sy e) * Sxd e + Sx e + k))) [xL..xR]) [yT..yB] (0, 0))"

definition pair_weight ::
  "TNLMeans \<Rightarrow> real list \<Rightarrow> bytes \<Rightarrow> bytes \<Rightarrow> int \<Rightarrow> int \<Rightarrow> int \<Rightarrow> int \<Rightarrow> int \<Rightarrow> int \<Rightarrow> int
     \<Rightarrow> real" where
  "pair_weight e gwt pf1p pf2p pitch heightm1 widthm1 x y u v =
     (case patch_diff e gwt pf1p pf2p pitch heightm1 widthm1 x y u v of
        (diff, gweights) \<Rightarrow> patch_weight e diff gweights)"

text \<open>
  The conversion \<^verbatim>\<open>int(...)\<close> of a double truncates towards zero; the result is clamped
  to \<open>[0, 255]\<close> and stored as a byte.
\<close>

definition to_int :: "real \<Rightarrow> int" where
  "to_int r = (if 0 \<le> r then \<lfloor>r\<rfloor> else \<lceil>r\<rceil>)"

definition to_pixel :: "real \<Rightarrow> real \<Rightarrow> 8 word" where
  "to_pixel s w = of_int (max (min (to_int (s / w + 1 / 2)) 255) 0)"

text \<open>The self weight: \<^verbatim>\<open>*dwmax <= epsilon ? 1.0 : *dwmax\<close>.\<close>

definition self_weight :: "real \<Rightarrow> real" where
  "self_weight m = (if m \<le> DBL_EPSILON then 1 else m)"

section \<open>The spatial pixel variant (GetFrameWOZ)\<close>

text \<open>The body of the loop over \<open>v\<close>: one candidate \<open>(v, u)\<close> of the centre \<open>(x, y)\<close>.\<close>

definition WOZ_pair ::
  "TNLMeans \<Rightarrow> real list \<Rightarrow> bytes \<Rightarrow> int \<Rightarrow> int \<Rightarrow> int \<Rightarrow> int \<Rightarrow> int \<Rightarrow> int \<Rightarrow> int \<Rightarrow> SDATA \<Rightarrow> SDATA" where
  "WOZ_pair e gwt pfp pitch width height x y u v ds0 =
     (let doff = y * width + x;
          coff = u * width + v;
          weight = pair_weight e gwt pfp pfp pitch (height - 1) (width - 1) x y u v;
          ds1 = ds0\<lparr> weights_d := (weights_d ds0)(coff := weights_d ds0 coff + weight) \<rparr>;
          ds2 = ds1\<lparr> weights_d := (weights_d ds1)(doff := weights_d ds1 doff + weight) \<rparr>;
          ds3 = ds2\<lparr> sums_d := (sums_d ds2)(coff := sums_d ds2 coff
                   + real_of_int (uint (pfp (y * pitch + x))) * weight) \<rparr>;
          ds4 = ds3\<lparr> sums_d := (sums_d ds3)(doff := sums_d ds3 doff
                   + real_of_int (uint (pfp (u * pitch + v))) * weight) \<rparr>;
          ds5 = (if weight > wmaxs_d ds4 coff then ds4\<lparr> wmaxs_d := (wmaxs_d ds4)(coff := weight) \<rparr> else ds4);
          ds6 = (if weight > wmaxs_d ds5 doff then ds5\<lparr> wmaxs_d := (wmaxs_d ds5)(doff := weight) \<rparr> else ds5)
      in ds6)"

text \<open>
  The body of the loop over \<open>x\<close>: the candidates of the causal half window, then the self
  term and the output sample.
\<close>

definition WOZ_pixel ::
  "TNLMeans \<Rightarrow> real list \<Rightarrow> bytes \<Rightarrow> int \<Rightarrow> int \<Rightarrow> int \<Rightarrow> int \<Rightarrow> int \<Rightarrow> SDATA \<times> bytes \<Rightarrow> SDATA \<times> bytes" where
  "WOZ_pixel e gwt pfp pitch width height y x st =
     (let ds0 = fst st; dstp = snd st;
          heightm1 = height - 1; widthm1 = width - 1;
          stopy = min (y + Ay e) heightm1;
          startxt = max (x - Ax e) 0;
          stopx = min (x + Ax e) widthm1;
          doff = y * width + x;
          ds1 = fold (\<lambda>u. fold (\<lambda>v. WOZ_pair e gwt pfp pitch width height x y u v)
                   [(if u = y then x + 1 else startxt)..stopx]) [y..stopy] ds0;
          wmax = self_weight (wmaxs_d ds1 doff);
          ds2 = ds1\<lparr> sums_d := (sums_d ds1)(doff := sums_d ds1 doff
                   + real_of_int (uint (pfp (y * pitch + x))) * wmax) \<rparr>;
          ds3 = ds2\<lparr> weights_d := (weights_d ds2)(doff := weights_d ds2 doff + wmax) \<rparr>
      in (ds3, dstp(y * pitch + x := to_pixel (sums_d ds3 doff) (weights_d ds3 doff))))"

text \<open>
  One plane of \<^verbatim>\<open>GetFrameWOZ\<close>: the accumulators are zeroed, then every pixel is processed
  in raster order.  The result is the accumulators and the destination plane.
\<close>

definition GetFrameWOZ_plane ::
  "TNLMeans \<Rightarrow> real list \<Rightarrow> bytes \<Rightarrow> int \<Rightarrow> int \<Rightarrow> int \<Rightarrow> SDATA \<Rightarrow> bytes \<Rightarrow> SDATA \<times> bytes" where
  "GetFrameWOZ_plane e gwt pfp pitch width height sd0 dstp =
     (let ds0 = \<lparr> sums_d = fill_zero_d (sums_d sd0) (height * width),
                  weights_d = fill_zero_d (weights_d sd0) (height * width),
                  wmaxs_d = fill_zero_d (wmaxs_d sd0) (height * width) \<rparr>
      in fold (\<lambda>y. fold (\<lambda>x. WOZ_pixel e gwt pfp pitch width height y x) [0..width - 1])
           [0..height - 1] (ds0, dstp))"

section \<open>The spatial block variant (GetFrameWOZB)\<close>

text \<open>The values of a loop \<^verbatim>\<open>for (y = from; y < bound; y += step)\<close> with a positive step.\<close>

function steps_from :: "int \<Rightarrow> int \<Rightarrow> int \<Rightarrow> int list" where
  "steps_from y bound step =
     (if y < bound \<and> 0 < step then y # steps_from (y + step) bound step else [])"
  by pat_completeness auto
termination
  by (relation "measure (\<lambda>(y, bound, step). nat (bound - y))") auto

declare steps_from.simps [simp del]

text \<open>
  The smear loops over \<open>j = -By, ..., yBb\<close> and \<open>k = -Bx, ..., xRb\<close>.  In row \<open>j\<close> the
  pointer \<^verbatim>\<open>sbp\<close> stands at \<open>(u + j) * pitch + v\<close> and \<^verbatim>\<open>sumsbT\<close>, \<^verbatim>\<open>weightsbT\<close> at
  \<open>(j + By) * Bxd + Bx\<close>.
\<close>

definition WOZB_smear ::
  "TNLMeans \<Rightarrow> bytes \<Rightarrow> int \<Rightarrow> int \<Rightarrow> int \<Rightarrow> int \<Rightarrow> int \<Rightarrow> real
     \<Rightarrow> (int \<Rightarrow> real) \<times> (int \<Rightarrow> real) \<Rightarrow> (int \<Rightarrow> real) \<times> (int \<Rightarrow> real)" where
  "WOZB_smear e pfp pitch u v yBb xRb weight =
     fold (\<lambda>j. fold (\<lambda>k (sumsb, weightsb).
        (sumsb((j + By e) * Bxd e + Bx e + k := sumsb ((j + By e) * Bxd e + Bx e + k)
             + real_of_int (uint (pfp ((u + j) * pitch + v + k))) * weight),
         weightsb((j + By e) * Bxd e + Bx e + k := weightsb ((j + By e) * Bxd e + Bx e + k) + weight)))
        [- Bx e..xRb]) [- By e..yBb]"

text \<open>The body of the loop over \<open>v\<close>; the state is \<^verbatim>\<open>(sumsb, weightsb)\<close> and \<^verbatim>\<open>wmax\<close>.\<close>

definition WOZB_cand ::
  "TNLMeans \<Rightarrow> real list \<Rightarrow> bytes \<Rightarrow> int \<Rightarrow> int \<Rightarrow> int \<Rightarrow> int \<Rightarrow> int \<Rightarrow> int \<Rightarrow> int
     \<Rightarrow> ((int \<Rightarrow> real) \<times> (int \<Rightarrow> real)) \<times> real \<Rightarrow> ((int \<Rightarrow> real) \<times> (int \<Rightarrow> real)) \<times> real" where
  "WOZB_cand e gwt pfp pitch width height x y u v st =
     (if u = y \<and> v = x then st
      else
        (let heightm1 = height - 1; widthm1 = width - 1;
             yBb = clip_hi (By e) heightm1 u y;
             weight = pair_weight e gwt pfp pfp pitch heightm1 widthm1 x y u v;
             xRb = clip_hi (Bx e) widthm1 v x;
             sb = WOZB_smear e pfp pitch u v yBb xRb weight (fst st)
         in (sb, if weight > snd st then weight else snd st)))"

text \<open>
  The final loops of a tile over \<open>j < yTr\<close> and \<open>k < xTr\<close>: self term and output samples.
  The pointers \<^verbatim>\<open>srcpT\<close> and \<^verbatim>\<open>dstpT\<close> start at column \<open>x - Bx\<close> of row \<open>y - By\<close> (the row
  pointers \<^verbatim>\<open>srcp\<close>, \<^verbatim>\<open>dstp\<close> advance by \<^verbatim>\<open>Byd\<close> rows per tile row, starting from row 0
  at \<open>y = By\<close>).
\<close>

definition WOZB_finish ::
  "TNLMeans \<Rightarrow> bytes \<Rightarrow> int \<Rightarrow> int \<Rightarrow> int \<Rightarrow> int \<Rightarrow> int \<Rightarrow> real
     \<Rightarrow> ((int \<Rightarrow> real) \<times> (int \<Rightarrow> real)) \<times> bytes \<Rightarrow> ((int \<Rightarrow> real) \<times> (int \<Rightarrow> real)) \<times> bytes" where
  "WOZB_finish e pfp pitch x y yTr xTr wmax =
     fold (\<lambda>j. fold (\<lambda>k ((sumsb, weightsb), dstp).
        (let s = sumsb (j * Bxd e + k)
                   + real_of_int (uint (pfp ((y - By e + j) * pitch + x - Bx e + k))) * wmax;
             w = weightsb (j * Bxd e + k) + wmax
         in (((sumsb(j * Bxd e + k := s), weightsb(j * Bxd e + k := w)),
              dstp((y - By e + j) * pitch + x - Bx e + k := to_pixel s w)))))
        [0..xTr - 1]) [0..yTr - 1]"

text \<open>The body of the loop over the tile centres \<open>x\<close>.\<close>

definition WOZB_tile ::
  "TNLMeans \<Rightarrow> real list \<Rightarrow> bytes \<Rightarrow> int \<Rightarrow> int \<Rightarrow> int \<Rightarrow> int \<Rightarrow> int
     \<Rightarrow> ((int \<Rightarrow> real) \<times> (int \<Rightarrow> real)) \<times> bytes \<Rightarrow> ((int \<Rightarrow> real) \<times> (int \<Rightarrow> real)) \<times> bytes" where
  "WOZB_tile e gwt pfp pitch width height y x st =
     (let heightm1 = height - 1; widthm1 = width - 1;
          starty = max (y - Ay e) (By e);
          stopy = min (y + Ay e) (heightm1 - min (By e) (heightm1 - y));
          yTr = min (Byd e) (height - y + By e);
          sb0 = (fill_zero_d (fst (fst st)) (Bxa e), fill_zero_d (snd (fst st)) (Bxa e));
          startx = max (x - Ax e) (Bx e);
          stopx = min (x + Ax e) (widthm1 - min (Bx e) (widthm1 - x));
          xTr = min (Bxd e) (width - x + Bx e);
          acc = fold (\<lambda>u. fold (\<lambda>v. WOZB_cand e gwt pfp pitch width height x y u v)
                   [startx..stopx]) [starty..stopy] (sb0, 0);
          wmax = self_weight (snd acc)
      in WOZB_finish e pfp pitch x y yTr xTr wmax (fst acc, snd st))"

definition GetFrameWOZB_plane ::
  "TNLMeans \<Rightarrow> real list \<Rightarrow> bytes \<Rightarrow> int \<Rightarrow> int \<Rightarrow> int \<Rightarrow> (int \<Rightarrow> real) \<times> (int \<Rightarrow> real) \<Rightarrow> bytes
     \<Rightarrow> ((int \<Rightarrow> real) \<times> (int \<Rightarrow> real)) \<times> bytes" where
  "GetFrameWOZB_plane e gwt pfp pitch width height sb dstp =
     fold (\<lambda>y. fold (\<lambda>x. WOZB_tile e gwt pfp pitch width height y x)
             (steps_from (Bx e) (width + Bx e) (Bxd e)))
       (steps_from (By e) (height + By e) (Byd e)) (sb, dstp)"

section \<open>The choice of the frame function and the buffers of a slot\<close>






section \<open>Non-local means in closed form\<close>

text \<open>
  The result every spatial variant is compared with.  A pixel is a pair (column, row);
  the neighbours of \<open>p\<close> are the pixels of the frame other than \<open>p\<close> within the search
  radii; an accumulator is a triple (sum, weight, largest weight).
\<close>

type_synonym pix = "int \<times> int"

type_synonym acc = "real \<times> real \<times> real"

definition frame_px :: "int \<Rightarrow> int \<Rightarrow> pix set" where
  "frame_px W H = {(c, r). 0 \<le> c \<and> c < W \<and> 0 \<le> r \<and> r < H}"

definition nbrs :: "TNLMeans \<Rightarrow> int \<Rightarrow> int \<Rightarrow> pix \<Rightarrow> pix set" where
  "nbrs e W H p =
     {q \<in> frame_px W H. \<bar>fst q - fst p\<bar> \<le> Ax e \<and> \<bar>snd q - snd p\<bar> \<le> Ay e \<and> q \<noteq> p}"

text \<open>Raster order: \<open>p\<close> is processed before \<open>q\<close>.\<close>

definition before :: "pix \<Rightarrow> pix \<Rightarrow> bool" where
  "before p q = (snd p < snd q \<or> (snd p = snd q \<and> fst p < fst q))"

definition valp :: "bytes \<Rightarrow> int \<Rightarrow> pix \<Rightarrow> real" where
  "valp pfp pitch p = real_of_int (uint (pfp (snd p * pitch + fst p)))"

text \<open>The weight of the centre \<open>p\<close> and the candidate \<open>q\<close>, both in the plane \<open>pfp\<close>.\<close>

definition wt2 :: "TNLMeans \<Rightarrow> real list \<Rightarrow> bytes \<Rightarrow> int \<Rightarrow> int \<Rightarrow> int \<Rightarrow> pix \<Rightarrow> pix \<Rightarrow> real" where
  "wt2 e gwt pfp pitch W H p q =
     pair_weight e gwt pfp pfp pitch (H - 1) (W - 1) (fst p) (snd p) (snd q) (fst q)"

definition acc3 :: "SDATA \<Rightarrow> int \<Rightarrow> acc" where
  "acc3 sd0 i = (sums_d sd0 i, weights_d sd0 i, wmaxs_d sd0 i)"

text \<open>One contribution of value \<open>v\<close> with weight \<open>w\<close>.\<close>

definition add3 :: "acc \<Rightarrow> real \<Rightarrow> real \<Rightarrow> acc" where
  "add3 a v w = (fst a + v * w, fst (snd a) + w, max (snd (snd a)) w)"

text \<open>The contributions of a set of pixels, starting from the zeroed accumulator.\<close>

definition contrib :: "(pix \<Rightarrow> real) \<Rightarrow> (pix \<Rightarrow> real) \<Rightarrow> pix set \<Rightarrow> acc" where
  "contrib vl wg S = (\<Sum>q\<in>S. vl q * wg q, \<Sum>q\<in>S. wg q, Max (insert 0 (wg ` S)))"

text \<open>The self term, and the sample computed from an accumulator.\<close>

definition finish3 :: "real \<Rightarrow> acc \<Rightarrow> acc" where
  "finish3 v a = (fst a + v * self_weight (snd (snd a)),
                  fst (snd a) + self_weight (snd (snd a)), snd (snd a))"

definition sample3 :: "acc \<Rightarrow> 8 word" where
  "sample3 a = to_pixel (fst a) (fst (snd a))"

definition nlm_acc :: "TNLMeans \<Rightarrow> real list \<Rightarrow> bytes \<Rightarrow> int \<Rightarrow> int \<Rightarrow> int \<Rightarrow> pix \<Rightarrow> acc" where
  "nlm_acc e gwt pfp pitch W H p =
     contrib (valp pfp pitch) (wt2 e gwt pfp pitch W H p) (nbrs e W H p)"

definition nlm_pixel :: "TNLMeans \<Rightarrow> real list \<Rightarrow> bytes \<Rightarrow> int \<Rightarrow> int \<Rightarrow> int \<Rightarrow> pix \<Rightarrow> 8 word" where
  "nlm_pixel e gwt pfp pitch W H p =
     sample3 (finish3 (valp pfp pitch p) (nlm_acc e gwt pfp pitch W H p))"

text \<open>
  The invariant of a raster pass at the point where \<open>c\<close> is the next pixel: a pixel
  before \<open>c\<close> holds its finished accumulator (\<open>fin\<close> applied to the contributions of all
  its neighbours), every other pixel the contributions of its neighbours before \<open>c\<close>.
\<close>

definition pass_inv ::
  "TNLMeans \<Rightarrow> real list \<Rightarrow> bytes \<Rightarrow> int \<Rightarrow> int \<Rightarrow> int \<Rightarrow> (pix \<Rightarrow> acc \<Rightarrow> acc) \<Rightarrow> pix
     \<Rightarrow> (pix \<Rightarrow> acc) \<Rightarrow> bool" where
  "pass_inv e gwt pfp pitch W H fin c V =
     (\<forall>r \<in> frame_px W H.
        V r = (if before r c then fin r (nlm_acc e gwt pfp pitch W H r)
               else contrib (valp pfp pitch) (wt2 e gwt pfp pitch W H r)
                      {q \<in> nbrs e W H r. before q c}))"

section \<open>A brute-force reference for the spatial pixel variant\<close>

text \<open>
  The reference of the specification: every unordered pair of pixels \<open>{p, q}\<close> with \<open>q\<close>
  inside the search window of \<open>p\<close> is scored once (all ordered pairs of the frame are
  enumerated; the one with \<open>p\<close> before \<open>q\<close> is taken), its weight is added to the
  accumulators of both, and afterwards each pixel receives its self term and is
  normalised.
\<close>

definition raster :: "int \<Rightarrow> int \<Rightarrow> pix list" where
  "raster W H = concat (map (\<lambda>r. map (\<lambda>c. (c, r)) [0..W - 1]) [0..H - 1])"

definition ref_in_window :: "TNLMeans \<Rightarrow> pix \<Rightarrow> pix \<Rightarrow> bool" where
  "ref_in_window e p q = (\<bar>fst q - fst p\<bar> \<le> Ax e \<and> \<bar>snd q - snd p\<bar> \<le> Ay e)"

definition ref_score ::
  "TNLMeans \<Rightarrow> real list \<Rightarrow> bytes \<Rightarrow> int \<Rightarrow> int \<Rightarrow> int \<Rightarrow> pix \<Rightarrow> pix \<Rightarrow> (pix \<Rightarrow> acc) \<Rightarrow> (pix \<Rightarrow> acc)" where
  "ref_score e gwt pfp pitch W H p q A =
     (let w = wt2 e gwt pfp pitch W H p q;
          A1 = A(p := add3 (A p) (valp pfp pitch q) w);
          A2 = A1(q := add3 (A1 q) (valp pfp pitch p) w)
      in A2)"

definition ref_accumulate ::
  "TNLMeans \<Rightarrow> real list \<Rightarrow> bytes \<Rightarrow> int \<Rightarrow> int \<Rightarrow> int \<Rightarrow> (pix \<Rightarrow> acc)" where
  "ref_accumulate e gwt pfp pitch W H =
     fold (\<lambda>p. fold (\<lambda>q A. if before p q \<and> ref_in_window e p q
                            then ref_score e gwt pfp pitch W H p q A else A) (raster W H))
       (raster W H) (\<lambda>p. (0, 0, 0))"

definition ref_output :: "TNLMeans \<Rightarrow> real list \<Rightarrow> bytes \<Rightarrow> int \<Rightarrow> int \<Rightarrow> int \<Rightarrow> pix \<Rightarrow> 8 word" where
  "ref_output e gwt pfp pitch W H p =
     (case ref_accumulate e gwt pfp pitch W H p of
        (s, w, m) \<Rightarrow> to_pixel (s + valp pfp pitch p * self_weight m) (w + self_weight m))"

text \<open>
  The candidates of the centre \<open>(x, y)\<close> in the order in which the loops over \<open>u\<close> and \<open>v\<close>
  of \<^verbatim>\<open>GetFrameWOZ\<close> visit them.
\<close>

definition WOZ_cands :: "TNLMeans \<Rightarrow> int \<Rightarrow> int \<Rightarrow> int \<Rightarrow> int \<Rightarrow> pix list" where
  "WOZ_cands e W H x y =
     concat (map (\<lambda>u. map (\<lambda>v. (v, u))
        [(if u = y then x + 1 else max (x - Ax e) 0)..min (x + Ax e) (W - 1)])
        [y..min (y + Ay e) (H - 1)])"

text \<open>The accumulators of \<^verbatim>\<open>SDATA\<close> seen per pixel.\<close>

definition acc_view :: "int \<Rightarrow> SDATA \<Rightarrow> pix \<Rightarrow> acc" where
  "acc_view W sd0 p = acc3 sd0 (snd p * W + fst p)"

text \<open>
  The invariant of \<^verbatim>\<open>GetFrameWOZ\<close> on its state, the accumulators and the destination
  plane: the raster invariant for the accumulators, and every pixel before \<open>c\<close> has
  received its final sample.
\<close>

definition WOZ_inv ::
  "TNLMeans \<Rightarrow> real list \<Rightarrow> bytes \<Rightarrow> int \<Rightarrow> int \<Rightarrow> int \<Rightarrow> pix \<Rightarrow> SDATA \<times> bytes \<Rightarrow> bool" where
  "WOZ_inv e gwt pfp pitch W H c st =
     (pass_inv e gwt pfp pitch W H (\<lambda>r. finish3 (valp pfp pitch r)) c (acc_view W (fst st))
      \<and> (\<forall>r \<in> frame_px W H. before r c \<longrightarrow>
            snd st (snd r * pitch + fst r) = nlm_pixel e gwt pfp pitch W H r))"

text \<open>The pairs scored by the reference for the first pixel \<open>p\<close>, in order.\<close>

definition ref_cands :: "TNLMeans \<Rightarrow> int \<Rightarrow> int \<Rightarrow> pix \<Rightarrow> pix list" where
  "ref_cands e W H p = filter (\<lambda>q. before p q \<and> ref_in_window e p q) (raster W H)"

text \<open>
  The candidates of a tile centre \<open>(x, y)\<close> of \<^verbatim>\<open>GetFrameWOZB\<close> for block radii 0, in the
  order of its loops over \<open>u\<close> and \<open>v\<close>, and the accumulator of the tile's single pixel.
\<close>

definition WOZB_cands0 :: "TNLMeans \<Rightarrow> int \<Rightarrow> int \<Rightarrow> int \<Rightarrow> int \<Rightarrow> pix list" where
  "WOZB_cands0 e W H x y =
     concat (map (\<lambda>u. map (\<lambda>v. (v, u)) [max (x - Ax e) 0..min (x + Ax e) (W - 1)])
        [max (y - Ay e) 0..min (y + Ay e) (H - 1)])"

definition tile_view :: "((int \<Rightarrow> real) \<times> (int \<Rightarrow> real)) \<times> real \<Rightarrow> acc" where
  "tile_view st = (fst (fst st) 0, snd (fst st) 0, snd st)"

section \<open>A concrete engine and frame\<close>

text \<open>
  A clip of one grey frame of two pixels, the values 0 and 255, and the engine built for
  it with \<open>Ax = 1\<close>, all other radii 0, \<open>a = 1\<close>, \<open>h = 1\<close> and absolute differences.
\<close>

definition example_vi :: VSVideoInfo where
  "example_vi = \<lparr> vi_format = \<lparr> colorFamily = cmGray, bitsPerSample = 8, numPlanes = 1 \<rparr>,
                   vi_width = 2, vi_height = 1, vi_numFrames = 1 \<rparr>"

definition example_ds :: SDATA where
  "example_ds = \<lparr> sums_d = (\<lambda>i. 0), weights_d = (\<lambda>i. 0), wmaxs_d = (\<lambda>i. 0) \<rparr>"

definition example_engine :: TNLMeans where
  "example_engine = \<lparr> Ax = 1, Ay = 0, Az = 0, Sx = 0, Sy = 0, Bx = 0, By = 0,
       a_p = 1, h_p = 1, ssd = False, vi = example_vi, numThreads = 1,
       h2in = - 1, hin = - 1, Sxd = 1, Syd = 1, Sxa = 1, Bxd = 1, Byd = 1, Bxa = 1,
       Axd = 3, Ayd = 1, Axa = 3, Azdm1 = 0, a2 = 1,
       threads = [\<lparr> t_fc = None, t_sumsb = None, t_weightsb = None,
                    t_ds = Some example_ds, t_gw = [1] \<rparr>] \<rparr>"

definition example_plane :: bytes where
  "example_plane i = (if i = 1 then 255 else 0)"

definition example_dst :: bytes where
  "example_dst i = 0"

text \<open>A cache of three slots holding the frames 4, 2 and 3, rotated by one.\<close>

definition example_cache :: nlCache where
  "example_cache = \<lparr> frames = [(nlFrame_new False 1 example_ds)\<lparr> fnum := 4 \<rparr>,
                                   (nlFrame_new False 1 example_ds)\<lparr> fnum := 2 \<rparr>,
                                   (nlFrame_new False 1 example_ds)\<lparr> fnum := 3 \<rparr>],
                       start_pos = 1, size_fc = 3 \<rparr>"

section \<open>The samples read by the four frame functions\<close>

text \<open>
  The coordinates (column, row) of every sample a frame function reads from a source
  plane, listed in the order of its loops.  The offset \<open>r * pitch + c\<close> of a read is the
  sample in column \<open>c\<close> of row \<open>r\<close>.  For the temporal variants a read also names the
  position \<open>z\<close> of the frame in the window (\<^verbatim>\<open>pfplut[z]\<close>).
\<close>

text \<open>
  The patch loops: \<^verbatim>\<open>s1[k]\<close> is the sample \<open>(v + k, u + j)\<close> of the candidate's plane and
  \<^verbatim>\<open>s2[k]\<close> the sample \<open>(x + k, y + j)\<close> of the centre's plane.
\<close>

definition patch_reads :: "TNLMeans \<Rightarrow> int \<Rightarrow> int \<Rightarrow> int \<Rightarrow> int \<Rightarrow> int \<Rightarrow> int \<Rightarrow> (pix \<times> pix) list" where
  "patch_reads e heightm1 widthm1 x y u v =
     concat (map (\<lambda>j. map (\<lambda>k. ((v + k, u + j), (x + k, y + j)))
        [clip_lo (Sx e) v x..clip_hi (Sx e) widthm1 v x])
        [clip_lo (Sy e) u y..clip_hi (Sy e) heightm1 u y])"

text \<open>
  A candidate \<open>(v, u)\<close> of the centre \<open>(x, y)\<close> in the pixel variants: the patch samples,
  the sample of the candidate (\<^verbatim>\<open>pfp[pfpl + v]\<close>, \<^verbatim>\<open>pf1p[pf1pl + v]\<close>) and the sample of
  the centre (\<^verbatim>\<open>srcp[x]\<close>).  The candidate's plane is at window position \<open>zs\<close>, the
  centre's at \<open>zc\<close>.
\<close>

definition cand_reads ::
  "TNLMeans \<Rightarrow> int \<Rightarrow> int \<Rightarrow> int \<Rightarrow> int \<Rightarrow> int \<Rightarrow> int \<Rightarrow> int \<Rightarrow> int \<Rightarrow> (int \<times> pix) list" where
  "cand_reads e heightm1 widthm1 zs zc x y u v =
     concat (map (\<lambda>s. [(zs, fst s), (zc, snd s)]) (patch_reads e heightm1 widthm1 x y u v))
       @ [(zs, (v, u)), (zc, (x, y))]"

text \<open>
  \<^verbatim>\<open>GetFrameWOZ\<close>, pixel \<open>(x, y)\<close>: the candidates, then \<^verbatim>\<open>srcp[x]\<close> for the self term.  The
  single source frame is given the position 0.
\<close>

definition WOZ_pixel_reads :: "TNLMeans \<Rightarrow> int \<Rightarrow> int \<Rightarrow> int \<Rightarrow> int \<Rightarrow> (int \<times> pix) list" where
  "WOZ_pixel_reads e W H x y =
     concat (map (\<lambda>q. cand_reads e (H - 1) (W - 1) 0 0 x y (snd q) (fst q)) (WOZ_cands e W H x y))
       @ [(0, (x, y))]"

definition WOZ_reads :: "TNLMeans \<Rightarrow> int \<Rightarrow> int \<Rightarrow> (int \<times> pix) list" where
  "WOZ_reads e W H = concat (map (\<lambda>p. WOZ_pixel_reads e W H (fst p) (snd p)) (raster W H))"

text \<open>
  \<^verbatim>\<open>GetFrameWZ\<close>, output frame \<open>n\<close>, pixel \<open>(x, y)\<close>: the candidates at window position
  \<open>z\<close>, for every \<open>z\<close> from \<^verbatim>\<open>startz\<close> to \<^verbatim>\<open>stopz\<close> (also those the consumed flags skip);
  then \<^verbatim>\<open>srcp[x]\<close> for the self term.
\<close>

definition WZ_cands :: "TNLMeans \<Rightarrow> int \<Rightarrow> int \<Rightarrow> int \<Rightarrow> int \<Rightarrow> int \<Rightarrow> pix list" where
  "WZ_cands e W H z x y =
     concat (map (\<lambda>u. map (\<lambda>v. (v, u))
        [(if u = y \<and> z = Az e then x + 1 else max (x - Ax e) 0)..min (x + Ax e) (W - 1)])
        [(if z = Az e then y else max (y - Ay e) 0)..min (y + Ay e) (H - 1)])"

definition WZ_pixel_reads ::
  "TNLMeans \<Rightarrow> int \<Rightarrow> int \<Rightarrow> int \<Rightarrow> int \<Rightarrow> int \<Rightarrow> int \<Rightarrow> (int \<times> pix) list" where
  "WZ_pixel_reads e W H nframes n x y =
     concat (map (\<lambda>z. concat (map (\<lambda>q. cand_reads e (H - 1) (W - 1) z (Az e) x y (snd q) (fst q))
          (WZ_cands e W H z x y))) [startz (Az e) n..stopz (Az e) nframes n])
       @ [(Az e, (x, y))]"

definition WZ_reads :: "TNLMeans \<Rightarrow> int \<Rightarrow> int \<Rightarrow> int \<Rightarrow> int \<Rightarrow> (int \<times> pix) list" where
  "WZ_reads e W H nframes n =
     concat (map (\<lambda>p. WZ_pixel_reads e W H nframes n (fst p) (snd p)) (raster W H))"

text \<open>
  The block variants.  The candidates of the tile centre \<open>(x, y)\<close>; per candidate the patch
  samples and the smeared samples \<^verbatim>\<open>sbp[k]\<close>; the samples \<^verbatim>\<open>srcpT[k]\<close> of the tile; the tile
  centres.
\<close>

definition block_cands :: "TNLMeans \<Rightarrow> int \<Rightarrow> int \<Rightarrow> int \<Rightarrow> int \<Rightarrow> pix list" where
  "block_cands e W H x y =
     concat (map (\<lambda>u. map (\<lambda>v. (v, u))
        [max (x - Ax e) (Bx e)..min (x + Ax e) (W - 1 - min (Bx e) (W - 1 - x))])
        [max (y - Ay e) (By e)..min (y + Ay e) (H - 1 - min (By e) (H - 1 - y))])"

definition smear_reads :: "TNLMeans \<Rightarrow> int \<Rightarrow> int \<Rightarrow> int \<Rightarrow> int \<Rightarrow> int \<Rightarrow> int \<Rightarrow> pix list" where
  "smear_reads e heightm1 widthm1 x y u v =
     concat (map (\<lambda>j. map (\<lambda>k. (v + k, u + j)) [- Bx e..clip_hi (Bx e) widthm1 v x])
        [- By e..clip_hi (By e) heightm1 u y])"

definition block_cand_reads ::
  "TNLMeans \<Rightarrow> int \<Rightarrow> int \<Rightarrow> int \<Rightarrow> int \<Rightarrow> int \<Rightarrow> int \<Rightarrow> int \<Rightarrow> int \<Rightarrow> (int \<times> pix) list" where
  "block_cand_reads e heightm1 widthm1 zs zc x y u v =
     (if zs = zc \<and> u = y \<and> v = x then []
      else concat (map (\<lambda>s. [(zs, fst s), (zc, snd s)]) (patch_reads e heightm1 widthm1 x y u v))
             @ map (\<lambda>s. (zs, s)) (smear_reads e heightm1 widthm1 x y u v))"

definition finish_reads :: "TNLMeans \<Rightarrow> int \<Rightarrow> int \<Rightarrow> int \<Rightarrow> int \<Rightarrow> pix list" where
  "finish_reads e W H x y =
     concat (map (\<lambda>j. map (\<lambda>k. (x - Bx e + k, y - By e + j))
        [0..min (Bxd e) (W - x + Bx e) - 1]) [0..min (Byd e) (H - y + By e) - 1])"

definition tile_centres :: "TNLMeans \<Rightarrow> int \<Rightarrow> int \<Rightarrow> pix list" where
  "tile_centres e W H =
     concat (map (\<lambda>y. map (\<lambda>x. (x, y)) (steps_from (Bx e) (W + Bx e) (Bxd e)))
        (steps_from (By e) (H + By e) (Byd e)))"

text \<open>\<^verbatim>\<open>GetFrameWOZB\<close>, tile centre \<open>(x, y)\<close>.\<close>

definition WOZB_tile_reads :: "TNLMeans \<Rightarrow> int \<Rightarrow> int \<Rightarrow> int \<Rightarrow> int \<Rightarrow> (int \<times> pix) list" where
  "WOZB_tile_reads e W H x y =
     concat (map (\<lambda>q. block_cand_reads e (H - 1) (W - 1) 0 0 x y (snd q) (fst q))
        (block_cands e W H x y))
       @ map (\<lambda>s. (0, s)) (finish_reads e W H x y)"

definition WOZB_reads :: "TNLMeans \<Rightarrow> int \<Rightarrow> int \<Rightarrow> (int \<times> pix) list" where
  "WOZB_reads e W H =
     concat (map (\<lambda>p. WOZB_tile_reads e W H (fst p) (snd p)) (tile_centres e W H))"

text \<open>\<^verbatim>\<open>GetFrameWZB\<close>, output frame \<open>n\<close>, tile centre \<open>(x, y)\<close>.\<close>

definition WZB_tile_reads ::
  "TNLMeans \<Rightarrow> int \<Rightarrow> int \<Rightarrow> int \<Rightarrow> int \<Rightarrow> int \<Rightarrow> int \<Rightarrow> (int \<times> pix) list" where
  "WZB_tile_reads e W H nframes n x y =
     concat (map (\<lambda>z. concat (map (\<lambda>q. block_cand_reads e (H - 1) (W - 1) z (Az e) x y (snd q) (fst q))
          (block_cands e W H x y))) [startz (Az e) n..stopz (Az e) nframes n])
       @ map (\<lambda>s. (Az e, s)) (finish_reads e W H x y)"

definition WZB_reads :: "TNLMeans \<Rightarrow> int \<Rightarrow> int \<Rightarrow> int \<Rightarrow> int \<Rightarrow> (int \<times> pix) list" where
  "WZB_reads e W H nframes n =
     concat (map (\<lambda>p. WZB_tile_reads e W H nframes n (fst p) (snd p)) (tile_centres e W H))"

section \<open>The ring buffer\<close>

lemma find_fnum_range:
  "find_fnum j i fs = Some k \<Longrightarrow> i \<le> k \<and> k < i + int (length fs)"
proof (induction fs arbitrary: i)
  case Nil
  then show ?case by simp
next
  case (Cons f fs)
  show ?case
  proof (cases "fnum f = j")
    case True
    with Cons.prems show ?thesis by simp
  next
    case False
    with Cons.prems have "find_fnum j (i + 1) fs = Some k" by simp
    from Cons.IH [OF this] show ?thesis by simp
  qed
qed

lemma wrap_start_range:
  "0 < sz \<Longrightarrow> - sz < s \<Longrightarrow> s < 2 * sz \<Longrightarrow> 0 \<le> wrap_start sz s \<and> wrap_start sz s < sz"
  by (auto simp: wrap_start_def)

lemma reset_scan_fields:
  "size_fc (reset_scan fc first js) = size_fc fc \<and> frames (reset_scan fc first js) = frames fc"
  by (induction js) (auto split: option.splits)

lemma reset_scan_range:
  assumes "0 \<le> start_pos fc" "start_pos fc < size_fc fc"
    and "\<forall>j \<in> set js. first \<le> j \<and> j - first < size_fc fc"
  shows "0 \<le> start_pos (reset_scan fc first js) \<and>
         start_pos (reset_scan fc first js) < size_fc fc"
  using assms
proof (induction js)
  case Nil
  then show ?case by simp
next
  case (Cons j js)
  show ?case
  proof (cases "find_fnum j 0 (take (nat (size_fc fc)) (frames fc))")
    case None
    with Cons show ?thesis by simp
  next
    case (Some i)
    from find_fnum_range [OF Some] have "0 \<le> i" "i < size_fc fc"
      using Cons.prems(1,2) by auto
    moreover from Cons.prems(3) have "first \<le> j" "j - first < size_fc fc" by auto
    ultimately have "0 \<le> wrap_start (size_fc fc) (i - j + first) \<and>
        wrap_start (size_fc fc) (i - j + first) < size_fc fc"
      by (intro wrap_start_range) auto
    with Some show ?thesis by simp
  qed
qed

text \<open>
  C9.  The rotation offset stays inside \<open>[0, size)\<close>: after construction with a positive
  capacity (the engine builds the cache with capacity \<open>2 * Az + 1\<close>, \<open>Az > 0\<close>), and after
  every \<^verbatim>\<open>resetCacheStart(first, last)\<close> whose window has exactly \<open>size\<close> frame numbers,
  whatever frame numbers the slots hold; \<^verbatim>\<open>resetCacheStart\<close> changes neither the capacity
  nor the slots; and for a logical index \<open>i \<ge> 0\<close> \<^verbatim>\<open>getCachePos\<close> is
  \<open>(start_pos + i) mod size\<close>, a valid physical slot.
\<close>

theorem ring_buffer_invariant:
  "(0 < n \<longrightarrow> 0 \<le> start_pos (nlCache_new n ub np mem) \<and> start_pos (nlCache_new n ub np mem) < size_fc (nlCache_new n ub np mem)
        \<and> int (length (frames (nlCache_new n ub np mem))) = size_fc (nlCache_new n ub np mem))
   \<and> (0 \<le> start_pos fc \<and> start_pos fc < size_fc fc \<and> lastj - first + 1 = size_fc fc \<longrightarrow>
        0 \<le> start_pos (resetCacheStart fc first lastj)
        \<and> start_pos (resetCacheStart fc first lastj) < size_fc (resetCacheStart fc first lastj)
        \<and> size_fc (resetCacheStart fc first lastj) = size_fc fc
        \<and> frames (resetCacheStart fc first lastj) = frames fc)
   \<and> (0 \<le> start_pos fc \<and> start_pos fc < size_fc fc \<and> 0 \<le> i \<longrightarrow>
        getCachePos fc i = (start_pos fc + i) mod size_fc fc
        \<and> 0 \<le> getCachePos fc i \<and> getCachePos fc i < size_fc fc)"
proof (intro conjI impI)
  assume "0 < n"
  then show "0 \<le> start_pos (nlCache_new n ub np mem)" "start_pos (nlCache_new n ub np mem) < size_fc (nlCache_new n ub np mem)"
    "int (length (frames (nlCache_new n ub np mem))) = size_fc (nlCache_new n ub np mem)"
    by (simp_all add: nlCache_new_def)
next
  assume a: "0 \<le> start_pos fc \<and> start_pos fc < size_fc fc \<and> lastj - first + 1 = size_fc fc"
  then have "\<forall>j \<in> set [first..lastj]. first \<le> j \<and> j - first < size_fc fc" by auto
  with a have "0 \<le> start_pos (reset_scan fc first [first..lastj]) \<and>
         start_pos (reset_scan fc first [first..lastj]) < size_fc fc"
    by (intro reset_scan_range) auto
  then show "0 \<le> start_pos (resetCacheStart fc first lastj)"
    "start_pos (resetCacheStart fc first lastj) < size_fc (resetCacheStart fc first lastj)"
    "size_fc (resetCacheStart fc first lastj) = size_fc fc"
    "frames (resetCacheStart fc first lastj) = frames fc"
    by (simp_all add: resetCacheStart_def reset_scan_fields)
next
  assume a: "0 \<le> start_pos fc \<and> start_pos fc < size_fc fc \<and> 0 \<le> i"
  then have "0 \<le> start_pos fc + i" "0 < size_fc fc" by auto
  then show "getCachePos fc i = (start_pos fc + i) mod size_fc fc"
    by (simp add: getCachePos_def smod_int_alt_def sgn_if)
  with \<open>0 < size_fc fc\<close> show "0 \<le> getCachePos fc i" "getCachePos fc i < size_fc fc"
    by simp_all
qed


theorem ring_buffer_invariant_witness:
  "0 < (3::int)
   \<and> start_pos (nlCache_new 3 False 1 example_ds) = 0 \<and> size_fc (nlCache_new 3 False 1 example_ds) = 3
   \<and> (0 \<le> start_pos example_cache
      \<and> start_pos example_cache < 3
      \<and> (5::int) - 3 + 1 = 3 \<and> (0::int) \<le> 2)
   \<and> start_pos (resetCacheStart
         example_cache 3 5) = 2
   \<and> getCachePos example_cache 2 = 0"
  using ring_buffer_invariant [of 3 False 1 example_ds example_cache 5 3 2]
  by (simp add: example_cache_def nlFrame_new_def nlCache_new_def resetCacheStart_def upto_rec1 wrap_start_def getCachePos_def
      smod_int_alt_def)

section \<open>Frame numbers stay inside the clip\<close>

lemma mapn_range: "0 < N \<Longrightarrow> 0 \<le> mapn N n \<and> mapn N n < N"
  by (simp add: mapn_def)

lemma refill_fetches_mapped:
  "set (snd (refill N r n clip clr js fc)) \<subseteq> mapn N ` set js"
proof (induction js arbitrary: fc)
  case Nil
  show ?case by simp
next
  case (Cons i js)
  show ?case
  proof (cases "fnum (frames fc ! nat (getCachePos fc (i - n + r))) \<noteq> i")
    case True
    define fc' where "fc' = fc\<lparr> frames := (frames fc)[nat (getCachePos fc (i - n + r)) :=
        load_slot N clip clr (size_fc fc) i (frames fc ! nat (getCachePos fc (i - n + r)))] \<rparr>"
    have "snd (refill N r n clip clr (i # js) fc) = mapn N i # snd (refill N r n clip clr js fc')"
      using True by (simp add: Let_def fc'_def split: prod.splits)
    with Cons.IH [of fc'] show ?thesis by auto
  next
    case False
    then have "snd (refill N r n clip clr (i # js) fc) = snd (refill N r n clip clr js fc)"
      by (simp add: Let_def)
    with Cons.IH [of fc] show ?thesis by auto
  qed
qed

text \<open>
  C10.  \<^verbatim>\<open>mapn\<close> clamps: 0 below the clip, \<open>numFrames - 1\<close> at and above its end, the
  index itself inside.  For a clip with at least one frame, every index requested by
  \<^verbatim>\<open>RequestFrame\<close>, fetched by \<^verbatim>\<open>newVideoFrame\<close> and the spatial variants, or fetched by
  the refill loop of the temporal variants (from any cache state) lies in
  \<open>[0, numFrames - 1]\<close>.  For an output index \<open>n\<close> of the clip, the accumulation range
  \<open>startz ... stopz\<close> consists of exactly the window positions \<open>z\<close> in \<open>[0, 2 * Az]\<close> whose
  true frame number \<open>n - Az + z\<close> lies in the clip, so a position filled with a clamped
  duplicate is never accumulated.
\<close>

theorem frame_indices_clamped:
  "(n < 0 \<longrightarrow> mapn N n = 0)
   \<and> (0 \<le> n \<and> N \<le> n \<longrightarrow> mapn N n = N - 1)
   \<and> (0 \<le> n \<and> n < N \<longrightarrow> mapn N n = n)
   \<and> (0 < N \<longrightarrow>
        (\<forall>k \<in> set (RequestFrame N r n). 0 \<le> k \<and> k < N)
        \<and> (\<forall>k \<in> set (fetch_single N n). 0 \<le> k \<and> k < N)
        \<and> (\<forall>k \<in> set (temporal_fetches N r n clip clr fc). 0 \<le> k \<and> k < N))
   \<and> set (RequestFrame N r n) = mapn N ` {n - r..n + r}
   \<and> (0 \<le> r \<and> 0 \<le> n \<and> n < N \<longrightarrow>
        (\<forall>z. (startz r n \<le> z \<and> z \<le> stopz r N n)
            = (0 \<le> z \<and> z \<le> 2 * r \<and> 0 \<le> n - r + z \<and> n - r + z < N)))"
proof (intro conjI impI ballI allI)
  fix k assume N: "0 < N" and k: "k \<in> set (temporal_fetches N r n clip clr fc)"
  have "set (temporal_fetches N r n clip clr fc) \<subseteq> range (mapn N)"
    using refill_fetches_mapped [of N r n clip clr "[n - r..n + r]" "resetCacheStart fc (n - r) (n + r)"]
    by (auto simp: temporal_fetches_def fetch_single_def)
  with k obtain i where "k = mapn N i" by auto
  with mapn_range [OF N, of i] show "0 \<le> k" "k < N" by simp_all
next
  fix z assume "0 \<le> r \<and> 0 \<le> n \<and> n < N"
  then show "(startz r n \<le> z \<and> z \<le> stopz r N n)
      = (0 \<le> z \<and> z \<le> 2 * r \<and> 0 \<le> n - r + z \<and> n - r + z < N)"
    by (auto simp: startz_def stopz_def min_def)
qed (auto simp: mapn_def RequestFrame_def fetch_single_def)

theorem frame_indices_clamped_witness:
  "(-1 < (0::int) \<and> mapn 5 (-1) = 0)
   \<and> ((0::int) \<le> 7 \<and> (5::int) \<le> 7 \<and> mapn 5 7 = 4)
   \<and> ((0::int) \<le> 3 \<and> (3::int) < 5 \<and> mapn 5 3 = 3)
   \<and> ((0::int) < 5 \<and> RequestFrame 5 2 0 = [0, 0, 0, 1, 2]
        \<and> temporal_fetches 5 2 0 (\<lambda>i. []) True (nlCache_new 5 False 1 example_ds) = [0, 0, 0, 1, 2, 0])
   \<and> ((0::int) \<le> 2 \<and> startz 2 0 = 2 \<and> stopz 2 5 0 = 4
        \<and> ((startz 2 0 \<le> 1 \<and> 1 \<le> stopz 2 5 0)
             = ((0::int) \<le> 1 \<and> (1::int) \<le> 2 * 2 \<and> (0::int) \<le> 0 - 2 + 1 \<and> (0::int) - 2 + 1 < 5)))"
proof -
  have e: "RequestFrame 5 2 0 = [0, 0, 0, 1, 2]"
    "temporal_fetches 5 2 0 (\<lambda>i. []) True (nlCache_new 5 False 1 example_ds) = [0, 0, 0, 1, 2, 0]"
    by code_simp+
  show ?thesis
    using frame_indices_clamped [of 0 5 2 "\<lambda>i. []" True "nlCache_new 5 False 1 example_ds"] e
    by (simp add: mapn_def startz_def stopz_def)
qed

section \<open>Validation of the configuration\<close>











section \<open>The weight function\<close>

lemma TNLMeans_new_scales:
  assumes "TNLMeans_new alloc ax ay az sx sy bx byy av hv sd vinfo nthreads mem = Inr e"
  shows "0 < hv \<and> hin e = - 1 / hv \<and> h2in e = - 1 / (hv * hv) \<and> h_p e = hv \<and> ssd e = sd"
proof -
  from assms have c: "check_params ax ay az sx sy bx byy av hv vinfo = None"
    by (cases "check_params ax ay az sx sy bx byy av hv vinfo") (simp_all add: TNLMeans_new_def)
  then have "0 < hv"
    unfolding check_params_def by (simp split: if_splits)
  moreover from assms c have "hin e = - 1 / hv \<and> h2in e = - 1 / (hv * hv) \<and> h_p e = hv \<and> ssd e = sd"
    by (auto simp: TNLMeans_new_def split: if_splits sum.splits)
  ultimately show ?thesis by simp
qed

lemma exp_scaled_weight:
  fixes c :: real
  assumes "c < 0"
  shows "(0 \<le> d \<and> 0 < g \<longrightarrow> 0 < exp (c * d / g) \<and> exp (c * d / g) \<le> 1)
       \<and> exp (c * 0 / g) = 1
       \<and> (0 < g \<and> 0 < g' \<and> d / g \<le> d' / g' \<longrightarrow> exp (c * d' / g') \<le> exp (c * d / g))"
proof (intro conjI impI)
  assume a: "0 \<le> d \<and> 0 < g"
  then have "c * d / g \<le> 0"
    using assms by (simp add: divide_nonpos_pos mult_nonpos_nonneg)
  then show "exp (c * d / g) \<le> 1" by simp
next
  assume a: "0 < g \<and> 0 < g' \<and> d / g \<le> d' / g'"
  then have "d / g \<le> d' / g'" by simp
  from mult_left_mono_neg [OF this, of c] assms
  have "c * (d' / g') \<le> c * (d / g)" by simp
  then show "exp (c * d' / g') \<le> exp (c * d / g)" by simp
qed simp_all

text \<open>
  C6.  For an engine returned by the constructor with bandwidth \<open>h\<close>, the weight is
  \<open>exp (scale * diff / gweights)\<close> with scale \<open>-1/h\<close> for the absolute and \<open>-1/h\<^sup>2\<close> for the
  squared differences.  For \<open>diff \<ge> 0\<close> and \<open>gweights > 0\<close> it lies in \<open>(0, 1]\<close>; it is 1
  at \<open>diff = 0\<close>; and it does not increase when the normalised distance
  \<open>diff / gweights\<close> grows.
\<close>

theorem weight_function_properties:
  assumes "TNLMeans_new alloc ax ay az sx sy bx byy av hv sd vinfo nthreads mem = Inr e"
  shows
    "GetSADWeight e d g = exp ((- 1 / hv) * d / g)
     \<and> GetSSDWeight e d g = exp ((- 1 / (hv * hv)) * d / g)
     \<and> patch_weight e d g = (if sd then GetSSDWeight e d g else GetSADWeight e d g)
     \<and> (0 \<le> d \<and> 0 < g \<longrightarrow>
          0 < GetSADWeight e d g \<and> GetSADWeight e d g \<le> 1
          \<and> 0 < GetSSDWeight e d g \<and> GetSSDWeight e d g \<le> 1
          \<and> 0 < patch_weight e d g \<and> patch_weight e d g \<le> 1)
     \<and> GetSADWeight e 0 g = 1 \<and> GetSSDWeight e 0 g = 1 \<and> patch_weight e 0 g = 1
     \<and> (0 < g \<and> 0 < g' \<and> d / g \<le> d' / g' \<longrightarrow>
          GetSADWeight e d' g' \<le> GetSADWeight e d g
          \<and> GetSSDWeight e d' g' \<le> GetSSDWeight e d g
          \<and> patch_weight e d' g' \<le> patch_weight e d g)"
proof -
  from TNLMeans_new_scales [OF assms]
  have h: "0 < hv" and s: "hin e = - 1 / hv" "h2in e = - 1 / (hv * hv)" "ssd e = sd"
    by simp_all
  from h have neg: "- 1 / hv < 0" "- 1 / (hv * hv) < 0" by simp_all
  note sad = exp_scaled_weight [OF neg(1), of d g g' d']
  note ssq = exp_scaled_weight [OF neg(2), of d g g' d']
  show ?thesis
    using sad ssq unfolding patch_weight_def GetSADWeight_def GetSSDWeight_def s
    by simp
qed

theorem weight_function_properties_witness:
  "\<exists>e. TNLMeans_new (\<lambda>s. True) 1 1 0 1 1 0 0 1 10 False
          \<lparr>vi_format = \<lparr>colorFamily = cmYUV, bitsPerSample = 8, numPlanes = 3\<rparr>,
           vi_width = 4, vi_height = 4, vi_numFrames = 10\<rparr> 2 example_ds = Inr e
      \<and> (0::real) \<le> 30 \<and> (0::real) < 3 \<and> (0::real) < 2 \<and> (30::real) / 3 \<le> 40 / 2
      \<and> GetSADWeight e 30 3 = exp (- 1)
      \<and> 0 < patch_weight e 30 3 \<and> patch_weight e 30 3 \<le> 1
      \<and> patch_weight e 0 3 = 1
      \<and> patch_weight e 40 2 \<le> patch_weight e 30 3"
proof -
  obtain e where e: "TNLMeans_new (\<lambda>s. True) 1 1 0 1 1 0 0 1 10 False
          \<lparr>vi_format = \<lparr>colorFamily = cmYUV, bitsPerSample = 8, numPlanes = 3\<rparr>,
           vi_width = 4, vi_height = 4, vi_numFrames = 10\<rparr> 2 example_ds = Inr e"
    by (simp add: TNLMeans_new_def check_params_def numeral_2_eq_2 new_thread_def)
  from weight_function_properties [OF e, of 30 3 2 40] e show ?thesis
    by (intro exI [of _ e]) simp
qed

section \<open>Accumulating contributions\<close>

lemma contrib_empty: "contrib vl wg {} = (0, 0, 0)"
  by (simp add: contrib_def)

lemma contrib_insert:
  assumes "finite S" and "q \<notin> S"
  shows "add3 (contrib vl wg S) (vl q) (wg q) = contrib vl wg (insert q S)"
proof -
  have "max (Max (insert 0 (wg ` S))) (wg q) = Max (insert 0 (wg ` insert q S))"
  proof -
    have "insert 0 (wg ` insert q S) = insert (wg q) (insert 0 (wg ` S))" by auto
    moreover have "Max (insert (wg q) (insert 0 (wg ` S))) = max (wg q) (Max (insert 0 (wg ` S)))"
      using assms(1) by (intro Max_insert) auto
    ultimately show ?thesis by (simp add: max.commute)
  qed
  then show ?thesis
    using assms by (simp add: add3_def contrib_def)
qed

lemma fold_add3_contrib:
  assumes "finite S"
  shows "distinct qs \<Longrightarrow> set qs \<inter> S = {} \<Longrightarrow>
    fold (\<lambda>q a. add3 a (vl q) (wg q)) qs (contrib vl wg S) = contrib vl wg (S \<union> set qs)"
  using assms
proof (induction qs arbitrary: S)
  case Nil
  then show ?case by simp
next
  case (Cons q qs)
  from Cons.prems have q: "q \<notin> S" and fin: "finite (insert q S)"
    and d: "distinct qs" and dis: "set qs \<inter> insert q S = {}" by auto
  have "fold (\<lambda>q a. add3 a (vl q) (wg q)) (q # qs) (contrib vl wg S)
      = fold (\<lambda>q a. add3 a (vl q) (wg q)) qs (contrib vl wg (insert q S))"
    using contrib_insert [OF Cons.prems(3) q, of vl wg] by simp
  also have "\<dots> = contrib vl wg (insert q S \<union> set qs)"
    by (rule Cons.IH [OF d dis fin])
  finally show ?case by simp
qed

lemma fold_nested:
  "fold (\<lambda>u. fold (\<lambda>v. g (h u v)) (xs u)) us s = fold g (concat (map (\<lambda>u. map (h u) (xs u)) us)) s"
  by (induction us arbitrary: s) (simp_all add: fold_map comp_def)

lemma fold_filter_if:
  "fold (\<lambda>q s. if P q then f q s else s) qs s = fold f (filter P qs) s"
  by (induction qs arbitrary: s) simp_all

lemma fold_upto_inv:
  assumes "P a s" and "\<And>i s. a \<le> i \<Longrightarrow> i \<le> b \<Longrightarrow> P i s \<Longrightarrow> P (i + 1) (f i s)"
  shows "a \<le> b + 1 \<Longrightarrow> P (b + 1) (fold f [a..b] s)"
  using assms
proof (induction "nat (b + 1 - a)" arbitrary: a s)
  case 0
  then have "a = b + 1" by simp
  with "0.prems" show ?case by simp
next
  case (Suc n)
  then have ab: "a \<le> b" by simp
  then have up: "[a..b] = a # [a + 1..b]" by (simp add: upto_rec1)
  have "P (b + 1) (fold f [a + 1..b] (f a s))"
  proof (rule Suc.hyps(1))
    show "n = nat (b + 1 - (a + 1))" using Suc.hyps(2) by simp
    show "a + 1 \<le> b + 1" using ab by simp
    show "P (a + 1) (f a s)" using Suc.prems(2) Suc.prems(3) [of a s] ab by simp
    show "\<And>i s. a + 1 \<le> i \<Longrightarrow> i \<le> b \<Longrightarrow> P i s \<Longrightarrow> P (i + 1) (f i s)"
      using Suc.prems(3) by simp
  qed
  with up show ?case by simp
qed

text \<open>
  The effect of a loop over the candidates \<open>qs\<close> of a centre \<open>p\<close> on the accumulators seen
  through a view \<open>V\<close>, when each candidate adds to the centre and to itself.
\<close>

lemma cand_fold:
  assumes eff: "\<And>q s r. q \<in> set qs \<Longrightarrow> r \<in> F \<Longrightarrow>
      V (f q s) r = (if r = p then add3 (V s p) (vl q) (wg q)
                     else if r = q then add3 (V s q) vp (wg q) else V s r)"
    and "r \<in> F" and "distinct qs" and "p \<notin> set qs"
  shows "V (fold f qs s) r =
      (if r = p then fold (\<lambda>q a. add3 a (vl q) (wg q)) qs (V s p)
       else if r \<in> set qs then add3 (V s r) vp (wg r) else V s r)"
  using assms
proof (induction qs arbitrary: s)
  case Nil
  then show ?case by simp
next
  case (Cons q qs)
  have IH: "V (fold f qs (f q s)) r =
      (if r = p then fold (\<lambda>q a. add3 a (vl q) (wg q)) qs (V (f q s) p)
       else if r \<in> set qs then add3 (V (f q s) r) vp (wg r) else V (f q s) r)"
    using Cons.prems by (intro Cons.IH) auto
  have e1: "V (f q s) r = (if r = p then add3 (V s p) (vl q) (wg q)
                     else if r = q then add3 (V s q) vp (wg q) else V s r)"
    using Cons.prems(1) [of q r s] Cons.prems(2) by simp
  from Cons.prems have qp: "q \<noteq> p" and qn: "q \<notin> set qs" by auto
  show ?case
  proof (cases "r = p")
    case True
    with IH e1 show ?thesis by simp
  next
    case False
    show ?thesis
    proof (cases "r = q")
      case True
      with IH e1 False qn show ?thesis by simp
    next
      case rq: False
      with IH e1 False show ?thesis by simp
    qed
  qed
qed

section \<open>The raster pass\<close>

lemma finite_frame_px: "finite (frame_px W H)"
proof -
  have "frame_px W H \<subseteq> {0..W} \<times> {0..H}" by (auto simp: frame_px_def)
  then show ?thesis by (rule finite_subset) simp
qed

lemma finite_nbrs: "finite (nbrs e W H p)"
  by (rule finite_subset [OF _ finite_frame_px [of W H]]) (auto simp: nbrs_def)

lemma nbrs_sym: "p \<in> frame_px W H \<Longrightarrow> q \<in> nbrs e W H p \<Longrightarrow> p \<in> nbrs e W H q"
  by (auto simp: nbrs_def abs_minus_commute)

lemma nbrs_frame: "q \<in> nbrs e W H p \<Longrightarrow> q \<in> frame_px W H \<and> q \<noteq> p"
  by (simp add: nbrs_def)

lemma before_irrefl: "\<not> before p p"
  by (simp add: before_def)

lemma before_asym: "before p q \<Longrightarrow> \<not> before q p"
  by (auto simp: before_def)

lemma before_total: "p \<noteq> q \<Longrightarrow> before p q \<or> before q p"
  by (cases p; cases q) (auto simp: before_def)

lemma before_next: "before q (fst p + 1, snd p) = (before q p \<or> q = p)"
  by (cases p; cases q) (auto simp: before_def)

lemma GetSAD_sym: "GetSAD p s1 q s2 gwt g k = GetSAD q s2 p s1 gwt g k"
  by (simp add: GetSAD_def abs_minus_commute)

lemma GetSSD_sym: "GetSSD p s1 q s2 gwt g k = GetSSD q s2 p s1 gwt g k"
proof -
  have "(a - b) * (a - b) = (b - a) * (b - a)" for a b :: int by (simp add: algebra_simps)
  then show ?thesis by (simp add: GetSSD_def)
qed

lemma patch_row_sym:
  "(\<lambda>k (diff, gweights).
      (diff + (if ssd e then GetSSD p A q B gwt G k else GetSAD p A q B gwt G k),
       gweights + gwt ! nat (G + k)))
   = (\<lambda>k (diff, gweights).
      (diff + (if ssd e then GetSSD q B p A gwt G k else GetSAD q B p A gwt G k),
       gweights + gwt ! nat (G + k)))"
proof -
  have a: "GetSAD p A q B gwt G k = GetSAD q B p A gwt G k" for k by (rule GetSAD_sym)
  have b: "GetSSD p A q B gwt G k = GetSSD q B p A gwt G k" for k by (rule GetSSD_sym)
  show ?thesis by (intro ext) (simp add: a b)
qed


lemma clip_lo_sym: "clip_lo s u y = clip_lo s y u"
  by (simp add: clip_lo_def min.commute min.left_commute)

lemma clip_hi_sym: "clip_hi s m u y = clip_hi s m y u"
  by (simp add: clip_hi_def min.commute min.left_commute)

lemma patch_diff_sym:
  "patch_diff e gwt p q pitch hm wm x y u v = patch_diff e gwt q p pitch hm wm v u y x"
proof -
  have r: "(\<lambda>j. fold (\<lambda>k (diff, gweights).
            (diff + (if ssd e
                     then GetSSD p ((u + j) * pitch + v) q ((y + j) * pitch + x) gwt
                            ((j + Sy e) * Sxd e + Sx e) k
                     else GetSAD p ((u + j) * pitch + v) q ((y + j) * pitch + x) gwt
                            ((j + Sy e) * Sxd e + Sx e) k),
             gweights + gwt ! nat ((j + Sy e) * Sxd e + Sx e + k))) xs)
     = (\<lambda>j. fold (\<lambda>k (diff, gweights).
            (diff + (if ssd e
                     then GetSSD q ((y + j) * pitch + x) p ((u + j) * pitch + v) gwt
                            ((j + Sy e) * Sxd e + Sx e) k
                     else GetSAD q ((y + j) * pitch + x) p ((u + j) * pitch + v) gwt
                            ((j + Sy e) * Sxd e + Sx e) k),
             gweights + gwt ! nat ((j + Sy e) * Sxd e + Sx e + k))) xs)" for xs
    by (intro ext arg_cong2 [where f = fold] refl patch_row_sym)
  show ?thesis
    unfolding patch_diff_def Let_def r
    by (simp only: clip_lo_sym [of "Sy e" u y] clip_hi_sym [of "Sy e" hm u y]
        clip_lo_sym [of "Sx e" v x] clip_hi_sym [of "Sx e" wm v x])
qed

lemma pair_weight_sym:
  "pair_weight e gwt p q pitch hm wm x y u v = pair_weight e gwt q p pitch hm wm v u y x"
  by (simp add: pair_weight_def patch_diff_sym [of e gwt p q pitch hm wm x y u v])

lemma wt2_sym: "wt2 e gwt pfp pitch W H p q = wt2 e gwt pfp pitch W H q p"
  by (simp add: wt2_def pair_weight_def patch_diff_sym [of e gwt pfp pfp pitch _ _ "fst p" "snd p"])

lemma nbrs_split:
  "{q \<in> nbrs e W H p. before q p} \<union> {q \<in> nbrs e W H p. before p q} = nbrs e W H p"
proof -
  have "before q p \<or> before p q" if "q \<in> nbrs e W H p" for q
    using that nbrs_frame [of q e W H p] before_total [of q p] by blast
  then show ?thesis by blast
qed

lemma nbrs_next:
  assumes "p \<in> nbrs e W H r"
  shows "{q \<in> nbrs e W H r. before q (fst p + 1, snd p)} = insert p {q \<in> nbrs e W H r. before q p}"
  using assms unfolding before_next by blast

lemma nbrs_next_not:
  assumes "p \<notin> nbrs e W H r"
  shows "{q \<in> nbrs e W H r. before q (fst p + 1, snd p)} = {q \<in> nbrs e W H r. before q p}"
  using assms unfolding before_next by blast

lemma pass_inv_step:
  assumes inv: "pass_inv e gwt pfp pitch W H fin p V"
    and p: "p \<in> frame_px W H"
    and eff: "\<And>r. r \<in> frame_px W H \<Longrightarrow>
        V' r = (if r = p
                then fin p (fold (\<lambda>q a. add3 a (valp pfp pitch q) (wt2 e gwt pfp pitch W H p q)) qs (V p))
                else if r \<in> set qs then add3 (V r) (valp pfp pitch p) (wt2 e gwt pfp pitch W H p r)
                else V r)"
    and qs: "distinct qs" "set qs = {q \<in> nbrs e W H p. before p q}"
  shows "pass_inv e gwt pfp pitch W H fin (fst p + 1, snd p) V'"
  unfolding pass_inv_def
proof
  fix r assume r: "r \<in> frame_px W H"
  let ?c = "(fst p + 1, snd p)"
  let ?C = "\<lambda>r S. contrib (valp pfp pitch) (wt2 e gwt pfp pitch W H r) S"
  from inv r have Vr: "V r = (if before r p then fin r (nlm_acc e gwt pfp pitch W H r)
               else ?C r {q \<in> nbrs e W H r. before q p})"
    unfolding pass_inv_def by blast
  show "V' r = (if before r ?c then fin r (nlm_acc e gwt pfp pitch W H r)
               else ?C r {q \<in> nbrs e W H r. before q ?c})"
  proof (cases "r = p")
    case True
    let ?E = "{q \<in> nbrs e W H p. before q p}"
    have fE: "finite ?E" using finite_nbrs [of e W H p] by simp
    have "\<And>q. q \<in> set qs \<Longrightarrow> q \<notin> ?E" using qs(2) before_asym by blast
    then have dis: "set qs \<inter> ?E = {}" by blast
    have un: "?E \<union> set qs = nbrs e W H p"
      unfolding qs(2) by (rule nbrs_split)
    have "V p = ?C p ?E" using Vr True before_irrefl [of p] by simp
    then have "fold (\<lambda>q a. add3 a (valp pfp pitch q) (wt2 e gwt pfp pitch W H p q)) qs (V p)
        = ?C p (?E \<union> set qs)"
      using fold_add3_contrib [OF fE qs(1) dis] by simp
    then have "V' p = fin p (nlm_acc e gwt pfp pitch W H p)"
      using eff [OF p] unfolding un nlm_acc_def by simp
    moreover have "before p ?c" unfolding before_next by simp
    ultimately show ?thesis using True by simp
  next
    case False
    show ?thesis
    proof (cases "r \<in> set qs")
      case True
      with qs(2) have rn: "r \<in> nbrs e W H p" and pr: "before p r" by auto
      then have nrp: "\<not> before r p" using before_asym by blast
      have nrc: "\<not> before r ?c" unfolding before_next using nrp False by simp
      let ?E = "{q \<in> nbrs e W H r. before q p}"
      have fE: "finite ?E" using finite_nbrs [of e W H r] by simp
      have pE: "p \<notin> ?E" using before_irrefl [of p] by simp
      have pn: "p \<in> nbrs e W H r" using nbrs_sym [OF p rn] .
      have "V' r = add3 (V r) (valp pfp pitch p) (wt2 e gwt pfp pitch W H p r)"
        using eff [OF r] False True by simp
      also have "\<dots> = add3 (?C r ?E) (valp pfp pitch p) (wt2 e gwt pfp pitch W H r p)"
        using Vr nrp by (simp add: wt2_sym [of e gwt pfp pitch W H p r])
      also have "\<dots> = ?C r (insert p ?E)"
        by (rule contrib_insert [OF fE pE])
      finally have "V' r = ?C r {q \<in> nbrs e W H r. before q ?c}"
        unfolding nbrs_next [OF pn] .
      with nrc show ?thesis by simp
    next
      case nq: False
      have V': "V' r = V r" using eff [OF r] False nq by simp
      show ?thesis
      proof (cases "before r p")
        case True
        then have "before r ?c" unfolding before_next by simp
        with V' Vr True show ?thesis by simp
      next
        case nb: False
        then have nrc: "\<not> before r ?c" unfolding before_next using False by simp
        from nb False have pr: "before p r" using before_total [of r p] by blast
        have "r \<notin> nbrs e W H p" using nq qs(2) pr by simp
        then have "p \<notin> nbrs e W H r" using nbrs_sym [OF r] by blast
        from nbrs_next_not [OF this] V' Vr nb nrc show ?thesis by simp
      qed
    qed
  qed
qed

lemma pass_inv_row:
  assumes "pass_inv e gwt pfp pitch W H fin (W, y) V"
  shows "pass_inv e gwt pfp pitch W H fin (0, y + 1) V"
proof -
  have b: "before r (0, y + 1) = before r (W, y)" if "r \<in> frame_px W H" for r
    using that by (cases r) (auto simp: before_def frame_px_def)
  have s: "{q \<in> nbrs e W H r. before q (0, y + 1)} = {q \<in> nbrs e W H r. before q (W, y)}" for r
    using b nbrs_frame by blast
  show ?thesis
    using assms unfolding pass_inv_def by (simp add: b s)
qed

lemma pass_inv_start:
  assumes "\<And>r. r \<in> frame_px W H \<Longrightarrow> V r = (0, 0, 0)"
  shows "pass_inv e gwt pfp pitch W H fin (0, 0) V"
proof -
  have b: "\<not> before r (0, 0)" if "r \<in> frame_px W H" for r
    using that by (cases r) (auto simp: before_def frame_px_def)
  have s: "{q \<in> nbrs e W H r. before q (0, 0)} = {}" for r
    using b nbrs_frame by blast
  show ?thesis
    unfolding pass_inv_def using assms by (simp add: b s contrib_empty)
qed

lemma pass_inv_end:
  assumes "pass_inv e gwt pfp pitch W H fin (0, H) V" and "r \<in> frame_px W H"
  shows "V r = fin r (nlm_acc e gwt pfp pitch W H r)"
proof -
  have "before r (0, H)" using assms(2) by (cases r) (auto simp: before_def frame_px_def)
  with assms show ?thesis by (simp add: pass_inv_def)
qed

section \<open>The spatial pixel variant in closed form\<close>

lemma idx_inj:
  assumes "0 \<le> x" "x < W" "0 \<le> x'" "x' < W" and eq: "y * W + x = y' * W + x'"
  shows "x = x' \<and> y = (y'::int)"
proof -
  have "y = y'"
  proof (rule ccontr)
    assume "y \<noteq> y'"
    then consider "y + 1 \<le> y'" | "y' + 1 \<le> y" by linarith
    then show False
    proof cases
      case 1
      then have "(y + 1) * W \<le> y' * W" using assms by (intro mult_right_mono) auto
      then show False using assms by (simp add: algebra_simps)
    next
      case 2
      then have "(y' + 1) * W \<le> y * W" using assms by (intro mult_right_mono) auto
      then show False using assms by (simp add: algebra_simps)
    qed
  qed
  with eq show ?thesis by simp
qed

lemma idx_inj_frame:
  assumes "p \<in> frame_px W H" "q \<in> frame_px W H" "W \<le> P"
  shows "(snd p * P + fst p = snd q * P + fst q) = (p = q)"
  using assms idx_inj [of "fst p" P "fst q" "snd p" "snd q"]
  by (cases p; cases q) (auto simp: frame_px_def)

lemma idx_range:
  assumes "p \<in> frame_px W H"
  shows "0 \<le> snd p * W + fst p \<and> snd p * W + fst p < H * W"
proof -
  obtain x y where p: "p = (x, y)" by (cases p)
  with assms have b: "0 \<le> x" "x < W" "0 \<le> y" "y < H" by (auto simp: frame_px_def)
  then have "y + 1 \<le> H" by simp
  then have "(y + 1) * W \<le> H * W" using b by (intro mult_right_mono) auto
  moreover have "0 \<le> y * W" using b by simp
  ultimately show ?thesis using b p by (simp add: algebra_simps)
qed

lemma cond_store:
  "(if c then sd0\<lparr> wmaxs_d := (wmaxs_d sd0)(i := w) \<rparr> else sd0)
     = sd0\<lparr> wmaxs_d := (wmaxs_d sd0)(i := if c then w else wmaxs_d sd0 i) \<rparr>"
  by simp

lemma WOZ_pair_fields:
  "sums_d (WOZ_pair e gwt pfp pitch W H x y u v sd0) =
     (sums_d sd0)(u * W + v := sums_d sd0 (u * W + v)
         + valp pfp pitch (x, y) * wt2 e gwt pfp pitch W H (x, y) (v, u),
       y * W + x := ((sums_d sd0)(u * W + v := sums_d sd0 (u * W + v)
         + valp pfp pitch (x, y) * wt2 e gwt pfp pitch W H (x, y) (v, u))) (y * W + x)
         + valp pfp pitch (v, u) * wt2 e gwt pfp pitch W H (x, y) (v, u))"
  "weights_d (WOZ_pair e gwt pfp pitch W H x y u v sd0) =
     (weights_d sd0)(u * W + v := weights_d sd0 (u * W + v) + wt2 e gwt pfp pitch W H (x, y) (v, u),
       y * W + x := ((weights_d sd0)(u * W + v := weights_d sd0 (u * W + v)
         + wt2 e gwt pfp pitch W H (x, y) (v, u))) (y * W + x) + wt2 e gwt pfp pitch W H (x, y) (v, u))"
  "wmaxs_d (WOZ_pair e gwt pfp pitch W H x y u v sd0) =
     (wmaxs_d sd0)(u * W + v := max (wmaxs_d sd0 (u * W + v)) (wt2 e gwt pfp pitch W H (x, y) (v, u)),
       y * W + x := max (((wmaxs_d sd0)(u * W + v := max (wmaxs_d sd0 (u * W + v))
          (wt2 e gwt pfp pitch W H (x, y) (v, u)))) (y * W + x)) (wt2 e gwt pfp pitch W H (x, y) (v, u)))"
  unfolding WOZ_pair_def Let_def cond_store valp_def wt2_def
  by (simp_all add: max_def)

lemma WOZ_pair_acc3:
  assumes "y * W + x \<noteq> u * W + v"
  shows "acc3 (WOZ_pair e gwt pfp pitch W H x y u v sd0) i =
     (if i = y * W + x
      then add3 (acc3 sd0 i) (valp pfp pitch (v, u)) (wt2 e gwt pfp pitch W H (x, y) (v, u))
      else if i = u * W + v
      then add3 (acc3 sd0 i) (valp pfp pitch (x, y)) (wt2 e gwt pfp pitch W H (x, y) (v, u))
      else acc3 sd0 i)"
  using assms by (simp add: acc3_def add3_def WOZ_pair_fields)

lemma WOZ_pair_view:
  assumes "p \<in> frame_px W H" "q \<in> frame_px W H" "r \<in> frame_px W H" "q \<noteq> p"
  shows "acc_view W (WOZ_pair e gwt pfp pitch W H (fst p) (snd p) (snd q) (fst q) sd0) r =
     (if r = p then add3 (acc_view W sd0 p) (valp pfp pitch q) (wt2 e gwt pfp pitch W H p q)
      else if r = q then add3 (acc_view W sd0 q) (valp pfp pitch p) (wt2 e gwt pfp pitch W H p q)
      else acc_view W sd0 r)"
proof -
  have ne: "snd p * W + fst p \<noteq> snd q * W + fst q"
    using idx_inj_frame [OF assms(1,2), of W] assms(4) by simp
  have rp: "(snd r * W + fst r = snd p * W + fst p) = (r = p)"
    using idx_inj_frame [OF assms(3,1), of W] by simp
  have rq: "(snd r * W + fst r = snd q * W + fst q) = (r = q)"
    using idx_inj_frame [OF assms(3,2), of W] by simp
  show ?thesis
    unfolding acc_view_def
    using WOZ_pair_acc3 [OF ne, of e gwt pfp pitch H sd0 "snd r * W + fst r"] rp rq
    by auto
qed

lemma distinct_concat_map:
  assumes "distinct us"
    and "\<And>u. u \<in> set us \<Longrightarrow> distinct (g u)"
    and "\<And>u u'. u \<in> set us \<Longrightarrow> u' \<in> set us \<Longrightarrow> u \<noteq> u' \<Longrightarrow> set (g u) \<inter> set (g u') = {}"
  shows "distinct (concat (map g us))"
  using assms
proof (induction us)
  case Nil
  then show ?case by simp
next
  case (Cons u us)
  have "distinct (concat (map g us))" using Cons.prems by (intro Cons.IH) auto
  moreover have "distinct (g u)" using Cons.prems(2) by simp
  moreover have "set (g u) \<inter> set (g u') = {}" if "u' \<in> set us" for u'
    using Cons.prems(1) Cons.prems(3) [of u u'] that by auto
  ultimately show ?case by auto
qed

lemma distinct_WOZ_cands: "distinct (WOZ_cands e W H x y)"
  unfolding WOZ_cands_def
proof (rule distinct_concat_map)
  show "distinct [y..min (y + Ay e) (H - 1)]" by simp
next
  fix u
  show "distinct (map (\<lambda>v. (v, u)) [(if u = y then x + 1 else max (x - Ax e) 0)..min (x + Ax e) (W - 1)])"
    by (simp add: distinct_map inj_on_def)
next
  fix u u' :: int assume "u \<noteq> u'"
  then show "set (map (\<lambda>v. (v, u)) [(if u = y then x + 1 else max (x - Ax e) 0)..min (x + Ax e) (W - 1)])
      \<inter> set (map (\<lambda>v. (v, u')) [(if u' = y then x + 1 else max (x - Ax e) 0)..min (x + Ax e) (W - 1)]) = {}"
    unfolding set_map by blast
qed

lemma set_WOZ_cands_mem:
  "((v, u) \<in> set (WOZ_cands e W H x y)) =
     (y \<le> u \<and> u \<le> min (y + Ay e) (H - 1)
      \<and> (if u = y then x + 1 else max (x - Ax e) 0) \<le> v \<and> v \<le> min (x + Ax e) (W - 1))"
  unfolding WOZ_cands_def set_concat set_map by (simp add: image_iff)

lemma set_WOZ_cands:
  assumes "(x, y) \<in> frame_px W H"
  shows "set (WOZ_cands e W H x y) = {q \<in> nbrs e W H (x, y). before (x, y) q}"
proof -
  from assms have b: "0 \<le> x" "x < W" "0 \<le> y" "y < H" by (simp_all add: frame_px_def)
  have "((v, u) \<in> set (WOZ_cands e W H x y)) = ((v, u) \<in> {q \<in> nbrs e W H (x, y). before (x, y) q})"
    for v u
    unfolding set_WOZ_cands_mem using b
    by (simp add: nbrs_def frame_px_def before_def) linarith
  then show ?thesis by auto
qed

lemma WOZ_cand_loop:
  "fold (\<lambda>u. fold (\<lambda>v. WOZ_pair e gwt pfp pitch W H x y u v)
        [(if u = y then x + 1 else max (x - Ax e) 0)..min (x + Ax e) (W - 1)])
     [y..min (y + Ay e) (H - 1)] sd0
   = fold (\<lambda>q. WOZ_pair e gwt pfp pitch W H x y (snd q) (fst q)) (WOZ_cands e W H x y) sd0"
  unfolding WOZ_cands_def
  using fold_nested [of "\<lambda>q. WOZ_pair e gwt pfp pitch W H x y (snd q) (fst q)" "\<lambda>u v. (v, u)"
      "\<lambda>u. [(if u = y then x + 1 else max (x - Ax e) 0)..min (x + Ax e) (W - 1)]"
      "[y..min (y + Ay e) (H - 1)]" sd0]
  by simp

lemma WOZ_cands_view:
  assumes p: "(x, y) \<in> frame_px W H" and r: "r \<in> frame_px W H"
  shows "acc_view W (fold (\<lambda>q. WOZ_pair e gwt pfp pitch W H x y (snd q) (fst q))
            (WOZ_cands e W H x y) sd0) r =
     (if r = (x, y)
      then fold (\<lambda>q a. add3 a (valp pfp pitch q) (wt2 e gwt pfp pitch W H (x, y) q))
             (WOZ_cands e W H x y) (acc_view W sd0 (x, y))
      else if r \<in> set (WOZ_cands e W H x y)
      then add3 (acc_view W sd0 r) (valp pfp pitch (x, y)) (wt2 e gwt pfp pitch W H (x, y) r)
      else acc_view W sd0 r)"
proof (rule cand_fold [where F = "frame_px W H"])
  fix q s r'
  assume q: "q \<in> set (WOZ_cands e W H x y)" and r': "r' \<in> frame_px W H"
  from q have "q \<in> nbrs e W H (x, y)" unfolding set_WOZ_cands [OF p] by simp
  then have qf: "q \<in> frame_px W H" and qp: "q \<noteq> (x, y)" using nbrs_frame by blast+
  from WOZ_pair_view [OF p qf r' qp, of e gwt pfp pitch s]
  show "acc_view W (WOZ_pair e gwt pfp pitch W H x y (snd q) (fst q) s) r' =
       (if r' = (x, y) then add3 (acc_view W s (x, y)) (valp pfp pitch q) (wt2 e gwt pfp pitch W H (x, y) q)
        else if r' = q then add3 (acc_view W s q) (valp pfp pitch (x, y)) (wt2 e gwt pfp pitch W H (x, y) q)
        else acc_view W s r')"
    by simp
next
  show "r \<in> frame_px W H" by (rule r)
  show "distinct (WOZ_cands e W H x y)" by (rule distinct_WOZ_cands)
  show "(x, y) \<notin> set (WOZ_cands e W H x y)"
    unfolding set_WOZ_cands [OF p] using before_irrefl by simp
qed

lemma WOZ_pixel_eq:
  "WOZ_pixel e gwt pfp pitch W H y x (sd0, dst) =
     (let ds1 = fold (\<lambda>q. WOZ_pair e gwt pfp pitch W H x y (snd q) (fst q)) (WOZ_cands e W H x y) sd0;
          doff = y * W + x;
          wmax = self_weight (wmaxs_d ds1 doff);
          s = sums_d ds1 doff + valp pfp pitch (x, y) * wmax;
          w = weights_d ds1 doff + wmax
      in (ds1\<lparr> sums_d := (sums_d ds1)(doff := s), weights_d := (weights_d ds1)(doff := w) \<rparr>,
          dst(y * pitch + x := to_pixel s w)))"
  unfolding WOZ_pixel_def Let_def fst_conv snd_conv WOZ_cand_loop valp_def
  by simp

lemma WOZ_pixel_view:
  assumes p: "(x, y) \<in> frame_px W H" and r: "r \<in> frame_px W H"
  shows "acc_view W (fst (WOZ_pixel e gwt pfp pitch W H y x (sd0, dst))) r =
     (if r = (x, y)
      then finish3 (valp pfp pitch (x, y))
             (fold (\<lambda>q a. add3 a (valp pfp pitch q) (wt2 e gwt pfp pitch W H (x, y) q))
                (WOZ_cands e W H x y) (acc_view W sd0 (x, y)))
      else if r \<in> set (WOZ_cands e W H x y)
      then add3 (acc_view W sd0 r) (valp pfp pitch (x, y)) (wt2 e gwt pfp pitch W H (x, y) r)
      else acc_view W sd0 r)"
proof -
  define ds1 where "ds1 = fold (\<lambda>q. WOZ_pair e gwt pfp pitch W H x y (snd q) (fst q))
      (WOZ_cands e W H x y) sd0"
  have ix: "(snd r * W + fst r = y * W + x) = (r = (x, y))"
    using idx_inj_frame [OF r p, of W] by simp
  have "acc_view W (fst (WOZ_pixel e gwt pfp pitch W H y x (sd0, dst))) r =
      (if r = (x, y) then finish3 (valp pfp pitch (x, y)) (acc_view W ds1 (x, y))
       else acc_view W ds1 r)"
    unfolding WOZ_pixel_eq Let_def ds1_def [symmetric]
    using ix by (simp add: acc_view_def acc3_def finish3_def)
  then show ?thesis
    unfolding ds1_def WOZ_cands_view [OF p r] WOZ_cands_view [OF p p] by simp
qed

lemma WOZ_pixel_dst:
  "snd (WOZ_pixel e gwt pfp pitch W H y x (sd0, dst)) =
     dst(y * pitch + x := sample3 (acc_view W (fst (WOZ_pixel e gwt pfp pitch W H y x (sd0, dst))) (x, y)))"
  unfolding WOZ_pixel_eq Let_def
  by (simp add: acc_view_def acc3_def sample3_def)

lemma WOZ_pixel_inv:
  assumes p: "(x, y) \<in> frame_px W H" and wp: "W \<le> pitch"
    and inv: "WOZ_inv e gwt pfp pitch W H (x, y) st"
  shows "WOZ_inv e gwt pfp pitch W H (x + 1, y) (WOZ_pixel e gwt pfp pitch W H y x st)"
proof -
  obtain sd0 dst where st: "st = (sd0, dst)" by (cases st)
  let ?st' = "WOZ_pixel e gwt pfp pitch W H y x (sd0, dst)"
  let ?fin = "\<lambda>r. finish3 (valp pfp pitch r)"
  from inv st have pi: "pass_inv e gwt pfp pitch W H ?fin (x, y) (acc_view W sd0)"
    and di: "\<And>r. r \<in> frame_px W H \<Longrightarrow> before r (x, y) \<Longrightarrow>
        dst (snd r * pitch + fst r) = nlm_pixel e gwt pfp pitch W H r"
    by (simp_all add: WOZ_inv_def)
  have pi': "pass_inv e gwt pfp pitch W H ?fin (fst (x, y) + 1, snd (x, y)) (acc_view W (fst ?st'))"
  proof (rule pass_inv_step [OF pi p _ distinct_WOZ_cands set_WOZ_cands [OF p]])
    fix r assume "r \<in> frame_px W H"
    from WOZ_pixel_view [OF p this, of e gwt pfp pitch sd0 dst]
    show "acc_view W (fst ?st') r =
         (if r = (x, y)
          then finish3 (valp pfp pitch (x, y))
             (fold (\<lambda>q a. add3 a (valp pfp pitch q) (wt2 e gwt pfp pitch W H (x, y) q))
                (WOZ_cands e W H x y) (acc_view W sd0 (x, y)))
          else if r \<in> set (WOZ_cands e W H x y)
          then add3 (acc_view W sd0 r) (valp pfp pitch (x, y)) (wt2 e gwt pfp pitch W H (x, y) r)
          else acc_view W sd0 r)" .
  qed
  then have pi'': "pass_inv e gwt pfp pitch W H ?fin (x + 1, y) (acc_view W (fst ?st'))" by simp
  have bp: "before (x, y) (x + 1, y)" by (simp add: before_def)
  from pi'' p bp have ap: "acc_view W (fst ?st') (x, y) = ?fin (x, y) (nlm_acc e gwt pfp pitch W H (x, y))"
    unfolding pass_inv_def by auto
  have d': "snd ?st' (snd r * pitch + fst r) = nlm_pixel e gwt pfp pitch W H r"
    if r: "r \<in> frame_px W H" and b: "before r (x + 1, y)" for r
  proof (cases "r = (x, y)")
    case True
    then show ?thesis
      unfolding WOZ_pixel_dst ap by (simp add: nlm_pixel_def)
  next
    case False
    with b have br: "before r (x, y)" using before_next [of r "(x, y)"] by simp
    have "snd r * pitch + fst r \<noteq> y * pitch + x"
      using idx_inj_frame [OF r p wp] False by simp
    then show ?thesis unfolding WOZ_pixel_dst using di [OF r br] by simp
  qed
  show ?thesis
    unfolding st WOZ_inv_def using pi'' d' by blast
qed

lemma WOZ_row_inv:
  assumes y: "0 \<le> y" "y < H" and W: "0 \<le> W" "W \<le> pitch"
    and inv: "WOZ_inv e gwt pfp pitch W H (0, y) st"
  shows "WOZ_inv e gwt pfp pitch W H (0, y + 1)
           (fold (\<lambda>x. WOZ_pixel e gwt pfp pitch W H y x) [0..W - 1] st)"
proof -
  have "WOZ_inv e gwt pfp pitch W H (W - 1 + 1, y)
           (fold (\<lambda>x. WOZ_pixel e gwt pfp pitch W H y x) [0..W - 1] st)"
  proof (rule fold_upto_inv [where P = "\<lambda>x. WOZ_inv e gwt pfp pitch W H (x, y)"])
    show "WOZ_inv e gwt pfp pitch W H (0, y) st" by (rule inv)
    show "0 \<le> W - 1 + 1" using W by simp
  next
    fix i s assume "0 \<le> i" "i \<le> W - 1" "WOZ_inv e gwt pfp pitch W H (i, y) s"
    then show "WOZ_inv e gwt pfp pitch W H (i + 1, y) (WOZ_pixel e gwt pfp pitch W H y i s)"
      using y W(2) by (intro WOZ_pixel_inv) (auto simp: frame_px_def)
  qed
  then have a: "WOZ_inv e gwt pfp pitch W H (W, y)
           (fold (\<lambda>x. WOZ_pixel e gwt pfp pitch W H y x) [0..W - 1] st)" by simp
  have b: "before r (0, y + 1) = before r (W, y)" if "r \<in> frame_px W H" for r
    using that by (cases r) (auto simp: before_def frame_px_def)
  show ?thesis
    using a pass_inv_row [of e gwt pfp pitch W H _ y] b unfolding WOZ_inv_def by auto
qed

lemma WOZ_plane_inv:
  assumes W: "0 \<le> W" "W \<le> pitch" and H: "0 \<le> H"
  shows "WOZ_inv e gwt pfp pitch W H (0, H) (GetFrameWOZ_plane e gwt pfp pitch W H sd0 dst)"
proof -
  let ?ds0 = "\<lparr> sums_d = fill_zero_d (sums_d sd0) (H * W),
                  weights_d = fill_zero_d (weights_d sd0) (H * W),
                  wmaxs_d = fill_zero_d (wmaxs_d sd0) (H * W) \<rparr>"
  have z: "acc_view W ?ds0 r = (0, 0, 0)" if "r \<in> frame_px W H" for r
    using idx_range [OF that] by (simp add: acc_view_def acc3_def fill_zero_d_def)
  have nb: "\<not> before r (0, 0)" if "r \<in> frame_px W H" for r
    using that by (cases r) (auto simp: before_def frame_px_def)
  have start: "WOZ_inv e gwt pfp pitch W H (0, 0) (?ds0, dst)"
    unfolding WOZ_inv_def using pass_inv_start [of W H "acc_view W ?ds0", OF z] nb by simp
  have "WOZ_inv e gwt pfp pitch W H (0, H - 1 + 1)
      (fold (\<lambda>y. fold (\<lambda>x. WOZ_pixel e gwt pfp pitch W H y x) [0..W - 1]) [0..H - 1] (?ds0, dst))"
  proof (rule fold_upto_inv [where P = "\<lambda>y. WOZ_inv e gwt pfp pitch W H (0, y)"])
    show "WOZ_inv e gwt pfp pitch W H (0, 0) (?ds0, dst)" by (rule start)
    show "0 \<le> H - 1 + 1" using H by simp
  next
    fix i s assume "0 \<le> i" "i \<le> H - 1" "WOZ_inv e gwt pfp pitch W H (0, i) s"
    then show "WOZ_inv e gwt pfp pitch W H (0, i + 1)
        (fold (\<lambda>x. WOZ_pixel e gwt pfp pitch W H i x) [0..W - 1] s)"
      using W by (intro WOZ_row_inv) auto
  qed
  then show ?thesis unfolding GetFrameWOZ_plane_def Let_def by simp
qed

lemma WOZ_plane_closed:
  assumes p: "(x, y) \<in> frame_px W H" and wp: "W \<le> pitch"
  shows "snd (GetFrameWOZ_plane e gwt pfp pitch W H sd0 dst) (y * pitch + x)
           = nlm_pixel e gwt pfp pitch W H (x, y)"
    and "acc3 (fst (GetFrameWOZ_plane e gwt pfp pitch W H sd0 dst)) (y * W + x)
           = finish3 (valp pfp pitch (x, y)) (nlm_acc e gwt pfp pitch W H (x, y))"
proof -
  from p have "0 \<le> W" "0 \<le> H" by (auto simp: frame_px_def)
  from WOZ_plane_inv [OF this(1) wp this(2), of e gwt pfp sd0 dst]
  have inv: "WOZ_inv e gwt pfp pitch W H (0, H) (GetFrameWOZ_plane e gwt pfp pitch W H sd0 dst)" .
  have b: "before (x, y) (0, H)" using p by (auto simp: before_def frame_px_def)
  from inv p b show "snd (GetFrameWOZ_plane e gwt pfp pitch W H sd0 dst) (y * pitch + x)
           = nlm_pixel e gwt pfp pitch W H (x, y)"
    unfolding WOZ_inv_def by auto
  from inv have "pass_inv e gwt pfp pitch W H (\<lambda>r. finish3 (valp pfp pitch r)) (0, H)
      (acc_view W (fst (GetFrameWOZ_plane e gwt pfp pitch W H sd0 dst)))"
    unfolding WOZ_inv_def by simp
  from pass_inv_end [OF this p]
  show "acc3 (fst (GetFrameWOZ_plane e gwt pfp pitch W H sd0 dst)) (y * W + x)
           = finish3 (valp pfp pitch (x, y)) (nlm_acc e gwt pfp pitch W H (x, y))"
    by (simp add: acc_view_def)
qed

section \<open>Constant frames and the self weight\<close>

lemma patch_weight_pos: "0 < patch_weight e d g"
  by (simp add: patch_weight_def GetSADWeight_def GetSSDWeight_def)

lemma wt2_pos: "0 < wt2 e gwt pfp pitch W H p q"
  by (simp add: wt2_def pair_weight_def patch_weight_pos split: prod.splits)

lemma self_weight_pos: "0 \<le> m \<Longrightarrow> 0 < self_weight m"
  by (simp add: self_weight_def DBL_EPSILON_def)

lemma to_pixel_exact: "0 < w \<Longrightarrow> to_pixel (real_of_int (uint c) * w) w = c"
proof -
  assume w: "0 < w"
  define n where "n = uint c"
  have n: "0 \<le> n" "n \<le> 255" using uint_bounded [of c] by (simp_all add: n_def)
  then have "0 \<le> real_of_int n + 1 / 2" by simp
  then have "to_int (real_of_int n + 1 / 2) = n"
    unfolding to_int_def by (simp add: floor_unique)
  then have "to_pixel (real_of_int n * w) w = of_int n"
    using w n by (simp add: to_pixel_def)
  then show ?thesis by (simp add: n_def)
qed

lemma contrib_max_nonneg: "finite S \<Longrightarrow> 0 \<le> snd (snd (contrib vl wg S))"
  by (simp add: contrib_def)

lemma nlm_pixel_constant:
  "nlm_pixel e gwt (\<lambda>i. c) pitch W H p = c"
proof -
  let ?w = "wt2 e gwt (\<lambda>i. c) pitch W H p"
  let ?N = "nbrs e W H p"
  let ?M = "Max (insert 0 (?w ` ?N))"
  have M: "0 \<le> ?M" using finite_nbrs [of e W H p] by simp
  have sw: "0 < self_weight ?M" by (rule self_weight_pos [OF M])
  have "0 \<le> (\<Sum>q\<in>?N. ?w q)" by (intro sum_nonneg less_imp_le wt2_pos)
  with sw have pos: "0 < (\<Sum>q\<in>?N. ?w q) + self_weight ?M" by simp
  have "(\<Sum>q\<in>?N. real_of_int (uint c) * ?w q) + real_of_int (uint c) * self_weight ?M
      = real_of_int (uint c) * ((\<Sum>q\<in>?N. ?w q) + self_weight ?M)"
    by (simp add: sum_distrib_left algebra_simps)
  then show ?thesis
    unfolding nlm_pixel_def nlm_acc_def contrib_def finish3_def sample3_def valp_def
    using to_pixel_exact [OF pos, of c] by simp
qed

lemma example_engine_built:
  "TNLMeans_new (\<lambda>s. True) 1 0 0 0 0 0 0 1 1 False example_vi 1 example_ds = Inr example_engine"
  by (simp add: TNLMeans_new_def check_params_def example_vi_def example_engine_def
      new_thread_def build_gw_def gw_clamp_def)

lemma example_nbrs: "nbrs example_engine 2 1 (0, 0) = {(1, 0)}"
  by (auto simp: nbrs_def frame_px_def example_engine_def)

lemma example_weight:
  "wt2 example_engine [1] example_plane 2 2 1 (0, 0) (1, 0) = exp (- 255)"
  by (simp add: wt2_def pair_weight_def patch_diff_def clip_lo_def clip_hi_def
      example_engine_def example_plane_def GetSAD_def patch_weight_def GetSADWeight_def)

lemma exp_255_small: "exp (- 255 :: real) \<le> DBL_EPSILON"
proof -
  have "(2::real) \<le> exp 1" using exp_ge_add_one_self [of "1::real"] by simp
  then have "(2::real) ^ 255 \<le> exp 1 ^ 255" by (intro power_mono) simp_all
  also have "exp (1::real) ^ 255 = exp 255" by (simp add: exp_of_nat_mult [symmetric])
  finally have a: "(2::real) ^ 255 \<le> exp 255" .
  have "(2::real) ^ 52 \<le> 2 ^ 255" by (intro power_increasing) simp_all
  with a have "(2::real) ^ 52 \<le> exp 255" by linarith
  then have "1 / exp (255 :: real) \<le> 1 / 2 ^ 52" by (intro divide_left_mono) simp_all
  then show ?thesis by (simp add: exp_minus DBL_EPSILON_def field_simps)
qed

text \<open>
  In this model, where the Gaussian table, the weights and the accumulators are real
  numbers, every output sample of the spatial pixel variant on a plane whose samples all
  equal \<open>c\<close> is \<open>c\<close>.
\<close>

lemma constant_plane_identity:
  assumes "(x, y) \<in> frame_px W H" and "W \<le> pitch"
  shows "snd (GetFrameWOZ_plane e gwt (\<lambda>i. c) pitch W H sd0 dst) (y * pitch + x) = c"
  using WOZ_plane_closed(1) [OF assms, of e gwt "\<lambda>i. c" sd0 dst]
  by (simp add: nlm_pixel_constant)

lemma nbrs_empty_radius0: "Ax e = 0 \<Longrightarrow> Ay e = 0 \<Longrightarrow> nbrs e W H p = {}"
  by (auto simp: nbrs_def)

lemma to_pixel_self: "to_pixel (valp pfp pitch (x, y) * 1) 1 = pfp (y * pitch + x)"
  using to_pixel_exact [of 1 "pfp (y * pitch + x)"] by (simp add: valp_def)

lemma nlm_max_zero_iff:
  "(snd (snd (nlm_acc e gwt pfp pitch W H p)) = 0) = (nbrs e W H p = {})"
proof (cases "nbrs e W H p = {}")
  case True
  then show ?thesis by (simp add: nlm_acc_def contrib_def)
next
  case False
  then obtain q where q: "q \<in> nbrs e W H p" by blast
  have "wt2 e gwt pfp pitch W H p q \<le> Max (insert 0 (wt2 e gwt pfp pitch W H p ` nbrs e W H p))"
    using q finite_nbrs [of e W H p] by (intro Max_ge) auto
  with wt2_pos [of e gwt pfp pitch W H p q] False show ?thesis
    by (simp add: nlm_acc_def contrib_def)
qed

text \<open>
  C5 (as amended).  When the pixel \<open>p = (x, y)\<close> is finished, \<^verbatim>\<open>wmaxs[p]\<close> is the largest
  weight of a pair of \<open>p\<close> (0 exactly when \<open>p\<close> has no candidate pair), and the self term
  added to \<^verbatim>\<open>sums[p]\<close> and \<^verbatim>\<open>weights[p]\<close> uses the weight 1 when \<^verbatim>\<open>wmaxs[p]\<close> is at most
  \<^verbatim>\<open>DBL_EPSILON\<close> and \<^verbatim>\<open>wmaxs[p]\<close> otherwise.  Without a candidate pair, as for
  \<open>Ax = Ay = 0\<close>, the self weight is 1 and the output sample is the input sample.
\<close>

theorem self_weight_fallback:
  assumes "(x, y) \<in> frame_px W H" and "W \<le> pitch"
  shows
    "wmaxs_d (fst (GetFrameWOZ_plane e gwt pfp pitch W H sd0 dst)) (y * W + x)
        = snd (snd (nlm_acc e gwt pfp pitch W H (x, y)))
     \<and> sums_d (fst (GetFrameWOZ_plane e gwt pfp pitch W H sd0 dst)) (y * W + x)
        = fst (nlm_acc e gwt pfp pitch W H (x, y))
          + valp pfp pitch (x, y)
            * self_weight (wmaxs_d (fst (GetFrameWOZ_plane e gwt pfp pitch W H sd0 dst)) (y * W + x))
     \<and> weights_d (fst (GetFrameWOZ_plane e gwt pfp pitch W H sd0 dst)) (y * W + x)
        = fst (snd (nlm_acc e gwt pfp pitch W H (x, y)))
          + self_weight (wmaxs_d (fst (GetFrameWOZ_plane e gwt pfp pitch W H sd0 dst)) (y * W + x))
     \<and> snd (GetFrameWOZ_plane e gwt pfp pitch W H sd0 dst) (y * pitch + x)
        = to_pixel (sums_d (fst (GetFrameWOZ_plane e gwt pfp pitch W H sd0 dst)) (y * W + x))
            (weights_d (fst (GetFrameWOZ_plane e gwt pfp pitch W H sd0 dst)) (y * W + x))
     \<and> (\<forall>m. m \<le> DBL_EPSILON \<longrightarrow> self_weight m = 1)
     \<and> (\<forall>m. DBL_EPSILON < m \<longrightarrow> self_weight m = m)
     \<and> ((wmaxs_d (fst (GetFrameWOZ_plane e gwt pfp pitch W H sd0 dst)) (y * W + x) = 0)
          = (nbrs e W H (x, y) = {}))
     \<and> (Ax e = 0 \<and> Ay e = 0 \<longrightarrow> nbrs e W H (x, y) = {})
     \<and> (nbrs e W H (x, y) = {} \<longrightarrow>
          self_weight (wmaxs_d (fst (GetFrameWOZ_plane e gwt pfp pitch W H sd0 dst)) (y * W + x)) = 1
          \<and> snd (GetFrameWOZ_plane e gwt pfp pitch W H sd0 dst) (y * pitch + x) = pfp (y * pitch + x))"
proof -
  let ?R = "GetFrameWOZ_plane e gwt pfp pitch W H sd0 dst"
  let ?a = "nlm_acc e gwt pfp pitch W H (x, y)"
  note c = WOZ_plane_closed [OF assms, of e gwt pfp sd0 dst]
  from c(2) have m: "wmaxs_d (fst ?R) (y * W + x) = snd (snd ?a)"
    by (simp add: acc3_def finish3_def)
  from c(2) have "sums_d (fst ?R) (y * W + x) = fst ?a + valp pfp pitch (x, y) * self_weight (snd (snd ?a))"
    by (simp add: acc3_def finish3_def)
  then have s: "sums_d (fst ?R) (y * W + x)
      = fst ?a + valp pfp pitch (x, y) * self_weight (wmaxs_d (fst ?R) (y * W + x))"
    unfolding m .
  from c(2) have "weights_d (fst ?R) (y * W + x) = fst (snd ?a) + self_weight (snd (snd ?a))"
    by (simp add: acc3_def finish3_def)
  then have w: "weights_d (fst ?R) (y * W + x)
      = fst (snd ?a) + self_weight (wmaxs_d (fst ?R) (y * W + x))"
    unfolding m .
  have out: "snd ?R (y * pitch + x)
      = to_pixel (sums_d (fst ?R) (y * W + x)) (weights_d (fst ?R) (y * W + x))"
    unfolding c(1) s w m by (simp add: nlm_pixel_def sample3_def finish3_def)
  have lo: "\<forall>m. m \<le> DBL_EPSILON \<longrightarrow> self_weight m = 1" by (simp add: self_weight_def)
  have hi: "\<forall>m. DBL_EPSILON < m \<longrightarrow> self_weight m = m" by (simp add: self_weight_def)
  have z: "(wmaxs_d (fst ?R) (y * W + x) = 0) = (nbrs e W H (x, y) = {})"
    unfolding m by (rule nlm_max_zero_iff)
  have r0: "Ax e = 0 \<and> Ay e = 0 \<longrightarrow> nbrs e W H (x, y) = {}"
    using nbrs_empty_radius0 [of e W H "(x, y)"] by blast
  have e0: "nbrs e W H (x, y) = {} \<longrightarrow>
          self_weight (wmaxs_d (fst ?R) (y * W + x)) = 1
          \<and> snd ?R (y * pitch + x) = pfp (y * pitch + x)"
  proof
    assume n: "nbrs e W H (x, y) = {}"
    then have a0: "?a = (0, 0, 0)" by (simp add: nlm_acc_def contrib_empty)
    have m0: "wmaxs_d (fst ?R) (y * W + x) = 0" using z n by simp
    have sw: "self_weight (wmaxs_d (fst ?R) (y * W + x)) = 1"
      unfolding m0 by (simp add: self_weight_def DBL_EPSILON_def)
    have "snd ?R (y * pitch + x) = to_pixel (valp pfp pitch (x, y) * 1) 1"
      unfolding out unfolding s w sw a0 by simp
    with sw show "self_weight (wmaxs_d (fst ?R) (y * W + x)) = 1
          \<and> snd ?R (y * pitch + x) = pfp (y * pitch + x)"
      unfolding to_pixel_self by simp
  qed
  show ?thesis
    by (intro conjI) (fact m s w out lo hi z r0 e0)+
qed

theorem self_weight_fallback_witness:
  "(0, 0) \<in> frame_px 2 1 \<and> (2::int) \<le> 2
   \<and> Ax (example_engine\<lparr> Ax := 0 \<rparr>) = 0 \<and> Ay (example_engine\<lparr> Ax := 0 \<rparr>) = 0
   \<and> nbrs (example_engine\<lparr> Ax := 0 \<rparr>) 2 1 (0, 0) = {}
   \<and> self_weight (wmaxs_d (fst (GetFrameWOZ_plane (example_engine\<lparr> Ax := 0 \<rparr>) [1] example_plane 2 2 1
         example_ds example_dst)) (0 * 2 + 0)) = 1
   \<and> snd (GetFrameWOZ_plane (example_engine\<lparr> Ax := 0 \<rparr>) [1] example_plane 2 2 1
         example_ds example_dst) (0 * 2 + 0) = example_plane (0 * 2 + 0)"
proof -
  have a: "Ax (example_engine\<lparr> Ax := 0 \<rparr>) = 0" "Ay (example_engine\<lparr> Ax := 0 \<rparr>) = 0"
    by (simp_all add: example_engine_def)
  have f: "(0, 0) \<in> frame_px 2 1" "(2::int) \<le> 2" by (simp_all add: frame_px_def)
  have n: "nbrs (example_engine\<lparr> Ax := 0 \<rparr>) 2 1 (0, 0) = {}"
    by (rule nbrs_empty_radius0 [OF a])
  note t = self_weight_fallback [OF f, of "example_engine\<lparr> Ax := 0 \<rparr>" "[1]" example_plane
        example_ds example_dst]
  from t n have "self_weight (wmaxs_d (fst (GetFrameWOZ_plane (example_engine\<lparr> Ax := 0 \<rparr>) [1]
         example_plane 2 2 1 example_ds example_dst)) (0 * 2 + 0)) = 1
   \<and> snd (GetFrameWOZ_plane (example_engine\<lparr> Ax := 0 \<rparr>) [1] example_plane 2 2 1
         example_ds example_dst) (0 * 2 + 0) = example_plane (0 * 2 + 0)"
    by blast
  with a f n show ?thesis by blast
qed

text \<open>
  The claim as stated fails where a candidate pair produces a positive weight that is
  at most \<^verbatim>\<open>DBL_EPSILON\<close>: for the two pixels 0 and 255 with \<open>h = 1\<close> the pair has the
  weight \<open>exp (-255)\<close>, which is \<^verbatim>\<open>wmaxs[p]\<close>, yet the self term is added with weight 1.
\<close>

theorem self_weight_fallback_counterexample:
  "TNLMeans_new (\<lambda>s. True) 1 0 0 0 0 0 0 1 1 False example_vi 1 example_ds = Inr example_engine
   \<and> nbrs example_engine 2 1 (0, 0) = {(1, 0)}
   \<and> wmaxs_d (fst (GetFrameWOZ_plane example_engine [1] example_plane 2 2 1 example_ds example_dst))
        (0 * 2 + 0) = exp (- 255)
   \<and> (0::real) < exp (- 255)
   \<and> weights_d (fst (GetFrameWOZ_plane example_engine [1] example_plane 2 2 1 example_ds example_dst))
        (0 * 2 + 0) = exp (- 255) + 1
   \<and> exp (- 255) \<noteq> (1::real)"
proof -
  have f: "(0, 0) \<in> frame_px 2 1" "(2::int) \<le> 2" by (simp_all add: frame_px_def)
  have a: "nlm_acc example_engine [1] example_plane 2 2 1 (0, 0) = (255 * exp (- 255), exp (- 255), exp (- 255))"
    by (simp add: nlm_acc_def example_nbrs contrib_def example_weight valp_def example_plane_def)
  have s: "self_weight (exp (- 255)) = 1"
    using exp_255_small by (simp add: self_weight_def)
  from WOZ_plane_closed(2) [OF f, of example_engine "[1]" example_plane example_ds example_dst]
  have "acc3 (fst (GetFrameWOZ_plane example_engine [1] example_plane 2 2 1 example_ds example_dst))
      (0 * 2 + 0) = finish3 (valp example_plane 2 (0, 0)) (255 * exp (- 255), exp (- 255), exp (- 255))"
    unfolding a .
  then show ?thesis
    using example_engine_built example_nbrs s
    by (simp add: acc3_def finish3_def)
qed

section \<open>The reference in closed form\<close>

lemma set_raster: "set (raster W H) = frame_px W H"
  unfolding raster_def frame_px_def set_concat set_map by auto

lemma distinct_raster: "distinct (raster W H)"
  unfolding raster_def
proof (rule distinct_concat_map)
  show "distinct [0..H - 1]" by simp
next
  fix r show "distinct (map (\<lambda>c. (c, r)) [0..W - 1])" by (simp add: distinct_map inj_on_def)
next
  fix r r' :: int assume "r \<noteq> r'"
  then show "set (map (\<lambda>c. (c, r)) [0..W - 1]) \<inter> set (map (\<lambda>c. (c, r')) [0..W - 1]) = {}"
    unfolding set_map by blast
qed

lemma fold_raster:
  "fold f (raster W H) s = fold (\<lambda>r. fold (\<lambda>c. f (c, r)) [0..W - 1]) [0..H - 1] s"
  unfolding raster_def
  using fold_nested [of f "\<lambda>r c. (c, r)" "\<lambda>r. [0..W - 1]" "[0..H - 1]" s] by simp

lemma ref_score_view:
  assumes "q \<noteq> p"
  shows "ref_score e gwt pfp pitch W H p q A r =
     (if r = p then add3 (A p) (valp pfp pitch q) (wt2 e gwt pfp pitch W H p q)
      else if r = q then add3 (A q) (valp pfp pitch p) (wt2 e gwt pfp pitch W H p q)
      else A r)"
  using assms by (simp add: ref_score_def Let_def)



lemma set_ref_cands:
  "set (ref_cands e W H p) = {q \<in> nbrs e W H p. before p q}"
  unfolding ref_cands_def set_filter set_raster nbrs_def ref_in_window_def
  using before_irrefl by auto

lemma ref_pixel_view:
  assumes r: "r \<in> frame_px W H"
  shows "fold (\<lambda>q A. if before p q \<and> ref_in_window e p q
                            then ref_score e gwt pfp pitch W H p q A else A) (raster W H) A r =
     (if r = p
      then fold (\<lambda>q a. add3 a (valp pfp pitch q) (wt2 e gwt pfp pitch W H p q)) (ref_cands e W H p) (A p)
      else if r \<in> set (ref_cands e W H p)
      then add3 (A r) (valp pfp pitch p) (wt2 e gwt pfp pitch W H p r)
      else A r)"
  unfolding fold_filter_if ref_cands_def [symmetric]
proof (rule cand_fold [where F = "frame_px W H" and V = "\<lambda>A. A"])
  fix q s r'
  assume "q \<in> set (ref_cands e W H p)"
  then have "q \<noteq> p" unfolding set_ref_cands using nbrs_frame by blast
  then show "ref_score e gwt pfp pitch W H p q s r' =
       (if r' = p then add3 (s p) (valp pfp pitch q) (wt2 e gwt pfp pitch W H p q)
        else if r' = q then add3 (s q) (valp pfp pitch p) (wt2 e gwt pfp pitch W H p q)
        else s r')"
    by (rule ref_score_view)
next
  show "r \<in> frame_px W H" by (rule r)
  show "distinct (ref_cands e W H p)" unfolding ref_cands_def using distinct_raster by simp
  show "p \<notin> set (ref_cands e W H p)" unfolding set_ref_cands using before_irrefl by simp
qed

lemma ref_pixel_inv:
  assumes p: "(x, y) \<in> frame_px W H"
    and inv: "pass_inv e gwt pfp pitch W H (\<lambda>r a. a) (x, y) A"
  shows "pass_inv e gwt pfp pitch W H (\<lambda>r a. a) (x + 1, y)
     (fold (\<lambda>q A. if before (x, y) q \<and> ref_in_window e (x, y) q
                            then ref_score e gwt pfp pitch W H (x, y) q A else A) (raster W H) A)"
proof -
  have "pass_inv e gwt pfp pitch W H (\<lambda>r a. a) (fst (x, y) + 1, snd (x, y))
     (fold (\<lambda>q A. if before (x, y) q \<and> ref_in_window e (x, y) q
                            then ref_score e gwt pfp pitch W H (x, y) q A else A) (raster W H) A)"
  proof (rule pass_inv_step [OF inv p, where qs = "ref_cands e W H (x, y)"])
    fix r assume "r \<in> frame_px W H"
    from ref_pixel_view [OF this, of "(x, y)" e gwt pfp pitch A]
    show "fold (\<lambda>q A. if before (x, y) q \<and> ref_in_window e (x, y) q
                            then ref_score e gwt pfp pitch W H (x, y) q A else A) (raster W H) A r =
         (if r = (x, y)
          then fold (\<lambda>q a. add3 a (valp pfp pitch q) (wt2 e gwt pfp pitch W H (x, y) q))
                 (ref_cands e W H (x, y)) (A (x, y))
          else if r \<in> set (ref_cands e W H (x, y))
          then add3 (A r) (valp pfp pitch (x, y)) (wt2 e gwt pfp pitch W H (x, y) r)
          else A r)" .
  next
    show "distinct (ref_cands e W H (x, y))" unfolding ref_cands_def using distinct_raster by simp
    show "set (ref_cands e W H (x, y)) = {q \<in> nbrs e W H (x, y). before (x, y) q}"
      by (rule set_ref_cands)
  qed
  then show ?thesis by simp
qed

lemma ref_accumulate_closed:
  assumes p: "p \<in> frame_px W H"
  shows "ref_accumulate e gwt pfp pitch W H p = nlm_acc e gwt pfp pitch W H p"
proof -
  from p have W: "0 \<le> W" and H: "0 \<le> H" by (auto simp: frame_px_def)
  let ?step = "\<lambda>p. fold (\<lambda>q A. if before p q \<and> ref_in_window e p q
                            then ref_score e gwt pfp pitch W H p q A else A) (raster W H)"
  let ?I = "pass_inv e gwt pfp pitch W H (\<lambda>r a. a)"
  have row: "?I (0, y + 1) (fold (\<lambda>c. ?step (c, y)) [0..W - 1] A)"
    if y: "0 \<le> y" "y < H" and inv: "?I (0, y) A" for y A
  proof -
    have "?I (W - 1 + 1, y) (fold (\<lambda>c. ?step (c, y)) [0..W - 1] A)"
    proof (rule fold_upto_inv [where P = "\<lambda>c. ?I (c, y)"])
      show "?I (0, y) A" by (rule inv)
      show "0 \<le> W - 1 + 1" using W by simp
    next
      fix i s assume "0 \<le> i" "i \<le> W - 1" "?I (i, y) s"
      then show "?I (i + 1, y) (?step (i, y) s)"
        using y by (intro ref_pixel_inv) (auto simp: frame_px_def)
    qed
    then have "?I (W, y) (fold (\<lambda>c. ?step (c, y)) [0..W - 1] A)" by simp
    then show ?thesis by (rule pass_inv_row)
  qed
  have "?I (0, H - 1 + 1) (fold (\<lambda>r. fold (\<lambda>c. ?step (c, r)) [0..W - 1]) [0..H - 1] (\<lambda>p. (0, 0, 0)))"
  proof (rule fold_upto_inv [where P = "\<lambda>r. ?I (0, r)"])
    show "?I (0, 0) (\<lambda>p. (0, 0, 0))" by (rule pass_inv_start) simp
    show "0 \<le> H - 1 + 1" using H by simp
  next
    fix i s assume "0 \<le> i" "i \<le> H - 1" "?I (0, i) s"
    then show "?I (0, i + 1) (fold (\<lambda>c. ?step (c, i)) [0..W - 1] s)"
      by (intro row) auto
  qed
  then have "?I (0, H) (ref_accumulate e gwt pfp pitch W H)"
    unfolding ref_accumulate_def fold_raster by simp
  from pass_inv_end [OF this p] show ?thesis .
qed

lemma ref_output_closed:
  assumes "p \<in> frame_px W H"
  shows "ref_output e gwt pfp pitch W H p = nlm_pixel e gwt pfp pitch W H p"
  unfolding ref_output_def ref_accumulate_closed [OF assms] nlm_pixel_def sample3_def finish3_def
  by (simp split: prod.splits)

text \<open>
  In this model, where \<open>x + Ax\<close> and \<open>y + Ay\<close> are sums of unbounded integers, the spatial
  pixel variant and the brute-force reference agree at every pixel: the accumulators (sum,
  weight, largest weight) of the pixel are those of the reference with the self term
  added, and the output sample is the sample of the reference.
\<close>

lemma WOZ_plane_matches_reference:
  assumes "(x, y) \<in> frame_px W H" and "W \<le> pitch"
  shows "snd (GetFrameWOZ_plane e gwt pfp pitch W H sd0 dst) (y * pitch + x)
           = ref_output e gwt pfp pitch W H (x, y)
         \<and> acc3 (fst (GetFrameWOZ_plane e gwt pfp pitch W H sd0 dst)) (y * W + x)
           = finish3 (valp pfp pitch (x, y)) (ref_accumulate e gwt pfp pitch W H (x, y))"
  using WOZ_plane_closed [OF assms, of e gwt pfp sd0 dst]
  by (simp add: ref_output_closed [OF assms(1)] ref_accumulate_closed [OF assms(1)])

section \<open>The spatial block variant with block radii 0\<close>

lemma steps_from_unit: "steps_from a b 1 = [a..b - 1]"
proof (induction "nat (b - a)" arbitrary: a)
  case 0
  then have "\<not> a < b" by simp
  then show ?case by (subst steps_from.simps) simp
next
  case (Suc n)
  then have ab: "a < b" by simp
  have "steps_from (a + 1) b 1 = [a + 1..b - 1]"
    using Suc.hyps(2) by (intro Suc.hyps(1)) simp
  with ab show ?case
    by (subst steps_from.simps) (simp add: upto_rec1 [of a "b - 1"])
qed

lemma TNLMeans_new_block0:
  assumes "TNLMeans_new alloc ax ay az sx sy 0 0 av hv sd vinfo nthreads mem = Inr e"
  shows "Bx e = 0 \<and> By e = 0 \<and> Bxd e = 1 \<and> Byd e = 1 \<and> Bxa e = 1 \<and> Ax e = ax \<and> Ay e = ay
         \<and> Az e = az \<and> Sx e = sx \<and> Sy e = sy"
  using assms
  by (cases "check_params ax ay az sx sy 0 0 av hv vinfo")
     (auto simp: TNLMeans_new_def split: if_splits sum.splits)

lemma WOZB_smear0:
  assumes "Bx e = 0" "By e = 0" "Bxd e = 1"
  shows "WOZB_smear e pfp pitch u v 0 0 w (s, wb)
     = (s(0 := s 0 + valp pfp pitch (v, u) * w), wb(0 := wb 0 + w))"
  using assms by (simp add: WOZB_smear_def valp_def)

lemma WOZB_cand_view0:
  assumes B: "Bx e = 0" "By e = 0" "Bxd e = 1"
    and p: "(x, y) \<in> frame_px W H" and q: "(v, u) \<in> frame_px W H"
  shows "tile_view (WOZB_cand e gwt pfp pitch W H x y u v st) =
     (if (v, u) = (x, y) then tile_view st
      else add3 (tile_view st) (valp pfp pitch (v, u)) (wt2 e gwt pfp pitch W H (x, y) (v, u)))"
proof -
  from p q have c: "clip_hi 0 (H - 1) u y = 0" "clip_hi 0 (W - 1) v x = 0"
    by (auto simp: clip_hi_def frame_px_def)
  obtain s wb m where st: "st = ((s, wb), m)" by (cases st) auto
  show ?thesis
    unfolding st WOZB_cand_def Let_def B c fst_conv snd_conv WOZB_smear0 [OF B]
    by (simp add: tile_view_def add3_def wt2_def max_def)
qed

lemma WOZB_cands_fold0:
  assumes B: "Bx e = 0" "By e = 0" "Bxd e = 1" and p: "(x, y) \<in> frame_px W H"
  shows "set qs \<subseteq> frame_px W H \<Longrightarrow>
    tile_view (fold (\<lambda>q. WOZB_cand e gwt pfp pitch W H x y (snd q) (fst q)) qs st) =
      fold (\<lambda>q a. add3 a (valp pfp pitch q) (wt2 e gwt pfp pitch W H (x, y) q))
        (filter (\<lambda>q. q \<noteq> (x, y)) qs) (tile_view st)"
proof (induction qs arbitrary: st)
  case Nil
  then show ?case by simp
next
  case (Cons q qs)
  obtain v u where q: "q = (v, u)" by (cases q)
  with Cons.prems have qf: "(v, u) \<in> frame_px W H" and rest: "set qs \<subseteq> frame_px W H" by auto
  note IH = Cons.IH [OF rest, of "WOZB_cand e gwt pfp pitch W H x y u v st"]
  show ?case
    unfolding q using IH WOZB_cand_view0 [OF B p qf, of gwt pfp pitch st] by simp
qed

lemma distinct_WOZB_cands0: "distinct (WOZB_cands0 e W H x y)"
  unfolding WOZB_cands0_def
proof (rule distinct_concat_map)
  show "distinct [max (y - Ay e) 0..min (y + Ay e) (H - 1)]" by simp
next
  fix u
  show "distinct (map (\<lambda>v. (v, u)) [max (x - Ax e) 0..min (x + Ax e) (W - 1)])"
    by (simp add: distinct_map inj_on_def)
next
  fix u u' :: int assume "u \<noteq> u'"
  then show "set (map (\<lambda>v. (v, u)) [max (x - Ax e) 0..min (x + Ax e) (W - 1)])
      \<inter> set (map (\<lambda>v. (v, u')) [max (x - Ax e) 0..min (x + Ax e) (W - 1)]) = {}"
    unfolding set_map by blast
qed

lemma set_WOZB_cands0_mem:
  "((v, u) \<in> set (WOZB_cands0 e W H x y)) =
     (max (y - Ay e) 0 \<le> u \<and> u \<le> min (y + Ay e) (H - 1)
      \<and> max (x - Ax e) 0 \<le> v \<and> v \<le> min (x + Ax e) (W - 1))"
  unfolding WOZB_cands0_def set_concat set_map by (auto simp: image_iff)

lemma set_WOZB_cands0:
  "set (filter (\<lambda>q. q \<noteq> (x, y)) (WOZB_cands0 e W H x y)) = nbrs e W H (x, y)"
proof -
  have "((v, u) \<in> set (filter (\<lambda>q. q \<noteq> (x, y)) (WOZB_cands0 e W H x y)))
      = ((v, u) \<in> nbrs e W H (x, y))" for v u
    unfolding set_filter mem_Collect_eq set_WOZB_cands0_mem
    by (simp add: nbrs_def frame_px_def) linarith
  then show ?thesis by auto
qed

lemma WOZB_cands0_frame: "set (WOZB_cands0 e W H x y) \<subseteq> frame_px W H"
proof
  fix q assume q: "q \<in> set (WOZB_cands0 e W H x y)"
  obtain v u where vu: "q = (v, u)" by (cases q)
  from q have "(v, u) \<in> set (WOZB_cands0 e W H x y)" unfolding vu .
  then show "q \<in> frame_px W H"
    unfolding vu set_WOZB_cands0_mem frame_px_def by simp
qed

lemma WOZB_cand_loop0:
  "fold (\<lambda>u. fold (\<lambda>v. WOZB_cand e gwt pfp pitch W H x y u v)
        [max (x - Ax e) 0..min (x + Ax e) (W - 1)])
     [max (y - Ay e) 0..min (y + Ay e) (H - 1)] st
   = fold (\<lambda>q. WOZB_cand e gwt pfp pitch W H x y (snd q) (fst q)) (WOZB_cands0 e W H x y) st"
  unfolding WOZB_cands0_def
  using fold_nested [of "\<lambda>q. WOZB_cand e gwt pfp pitch W H x y (snd q) (fst q)" "\<lambda>u v. (v, u)"
      "\<lambda>u. [max (x - Ax e) 0..min (x + Ax e) (W - 1)]"
      "[max (y - Ay e) 0..min (y + Ay e) (H - 1)]" st]
  by simp

lemma WOZB_tile_acc0:
  assumes B: "Bx e = 0" "By e = 0" "Bxd e = 1" and p: "(x, y) \<in> frame_px W H"
    and z: "s0 0 = 0" "w0 0 = 0"
  shows "tile_view (fold (\<lambda>q. WOZB_cand e gwt pfp pitch W H x y (snd q) (fst q))
            (WOZB_cands0 e W H x y) ((s0, w0), 0)) = nlm_acc e gwt pfp pitch W H (x, y)"
proof -
  let ?f = "filter (\<lambda>q. q \<noteq> (x, y)) (WOZB_cands0 e W H x y)"
  have tv: "tile_view ((s0, w0), 0) = contrib (valp pfp pitch) (wt2 e gwt pfp pitch W H (x, y)) {}"
    using z by (simp add: tile_view_def contrib_empty)
  have d: "distinct ?f" using distinct_WOZB_cands0 by simp
  have "fold (\<lambda>q a. add3 a (valp pfp pitch q) (wt2 e gwt pfp pitch W H (x, y) q)) ?f
          (contrib (valp pfp pitch) (wt2 e gwt pfp pitch W H (x, y)) {})
      = contrib (valp pfp pitch) (wt2 e gwt pfp pitch W H (x, y)) ({} \<union> set ?f)"
    by (rule fold_add3_contrib [OF _ d]) simp_all
  then show ?thesis
    unfolding WOZB_cands_fold0 [OF B p WOZB_cands0_frame] tv nlm_acc_def set_WOZB_cands0
    by simp
qed

lemma WOZB_finish0:
  assumes "Bx e = 0" "By e = 0" "Bxd e = 1"
  shows "snd (WOZB_finish e pfp pitch x y 1 1 wmax ((s, wb), dst))
     = dst(y * pitch + x := to_pixel (s 0 + valp pfp pitch (x, y) * wmax) (wb 0 + wmax))"
  using assms by (simp add: WOZB_finish_def valp_def Let_def)

lemma WOZB_tile_dst0:
  assumes B: "Bx e = 0" "By e = 0" "Bxd e = 1" "Byd e = 1" "Bxa e = 1"
    and p: "(x, y) \<in> frame_px W H"
  shows "snd (WOZB_tile e gwt pfp pitch W H y x st)
     = (snd st)(y * pitch + x := nlm_pixel e gwt pfp pitch W H (x, y))"
proof -
  from p have b: "0 \<le> x" "x < W" "0 \<le> y" "y < H" by (simp_all add: frame_px_def)
  let ?s0 = "fill_zero_d (fst (fst st)) 1" and ?w0 = "fill_zero_d (snd (fst st)) 1"
  let ?a = "fold (\<lambda>q. WOZB_cand e gwt pfp pitch W H x y (snd q) (fst q))
            (WOZB_cands0 e W H x y) ((?s0, ?w0), 0)"
  have z: "?s0 0 = 0" "?w0 0 = 0" by (simp_all add: fill_zero_d_def)
  have bounds: "min (x + Ax e) (W - 1 - min 0 (W - 1 - x)) = min (x + Ax e) (W - 1)"
    "min (y + Ay e) (H - 1 - min 0 (H - 1 - y)) = min (y + Ay e) (H - 1)"
    "min 1 (H - y + 0) = 1" "min 1 (W - x + 0) = 1"
    using b by simp_all
  have tile: "WOZB_tile e gwt pfp pitch W H y x st
      = WOZB_finish e pfp pitch x y 1 1 (self_weight (snd ?a)) (fst ?a, snd st)"
    unfolding WOZB_tile_def Let_def B bounds WOZB_cand_loop0 ..
  obtain s wb m where a: "?a = ((s, wb), m)" by (cases ?a) auto
  from WOZB_tile_acc0 [where ?s0.0 = ?s0 and ?w0.0 = ?w0, OF B(1-3) p z, of gwt pfp pitch]
  have n: "nlm_acc e gwt pfp pitch W H (x, y) = (s 0, wb 0, m)"
    unfolding a by (simp add: tile_view_def)
  show ?thesis
    unfolding tile a fst_conv snd_conv WOZB_finish0 [OF B(1-3)]
    by (simp add: nlm_pixel_def n sample3_def finish3_def)
qed

lemma WOZB_plane_closed0:
  assumes B: "Bx e = 0" "By e = 0" "Bxd e = 1" "Byd e = 1" "Bxa e = 1"
    and p: "(x, y) \<in> frame_px W H" and wp: "W \<le> pitch"
  shows "snd (GetFrameWOZB_plane e gwt pfp pitch W H sb dst) (y * pitch + x)
     = nlm_pixel e gwt pfp pitch W H (x, y)"
proof -
  from p have W: "0 \<le> W" and H: "0 \<le> H" by (auto simp: frame_px_def)
  let ?Q = "\<lambda>c (st :: ((int \<Rightarrow> real) \<times> (int \<Rightarrow> real)) \<times> bytes). \<forall>r \<in> frame_px W H. before r c \<longrightarrow>
      snd st (snd r * pitch + fst r) = nlm_pixel e gwt pfp pitch W H r"
  let ?tile = "WOZB_tile e gwt pfp pitch W H"
  have step: "?Q (i + 1, j) (?tile j i st)" if c: "(i, j) \<in> frame_px W H" and q: "?Q (i, j) st"
    for i j st
  proof
    fix r assume r: "r \<in> frame_px W H"
    show "before r (i + 1, j) \<longrightarrow> snd (?tile j i st) (snd r * pitch + fst r)
        = nlm_pixel e gwt pfp pitch W H r"
    proof
      assume b: "before r (i + 1, j)"
      show "snd (?tile j i st) (snd r * pitch + fst r) = nlm_pixel e gwt pfp pitch W H r"
      proof (cases "r = (i, j)")
        case True
        then show ?thesis unfolding WOZB_tile_dst0 [OF B c] by simp
      next
        case False
        with b have br: "before r (i, j)" using before_next [of r "(i, j)"] by simp
        have "snd r * pitch + fst r \<noteq> j * pitch + i"
          using idx_inj_frame [OF r c wp] False by simp
        then show ?thesis unfolding WOZB_tile_dst0 [OF B c] using q r br by simp
      qed
    qed
  qed
  have row: "?Q (0, j + 1) (fold (?tile j) [0..W - 1] st)"
    if j: "0 \<le> j" "j < H" and q: "?Q (0, j) st" for j st
  proof -
    have "?Q (W - 1 + 1, j) (fold (?tile j) [0..W - 1] st)"
    proof (rule fold_upto_inv [where P = "\<lambda>i. ?Q (i, j)"])
      show "?Q (0, j) st" by (rule q)
      show "0 \<le> W - 1 + 1" using W by simp
    next
      fix i s assume "0 \<le> i" "i \<le> W - 1" "?Q (i, j) s"
      then show "?Q (i + 1, j) (?tile j i s)"
        using j by (intro step) (auto simp: frame_px_def)
    qed
    then have a: "?Q (W, j) (fold (?tile j) [0..W - 1] st)" by simp
    have b: "before r (0, j + 1) = before r (W, j)" if "r \<in> frame_px W H" for r
      using that by (cases r) (auto simp: before_def frame_px_def)
    show ?thesis using a b by simp
  qed
  have "?Q (0, H - 1 + 1) (fold (\<lambda>j. fold (?tile j) [0..W - 1]) [0..H - 1] (sb, dst))"
  proof (rule fold_upto_inv [where P = "\<lambda>j. ?Q (0, j)"])
    show "?Q (0, 0) (sb, dst)" by (auto simp: before_def frame_px_def)
    show "0 \<le> H - 1 + 1" using H by simp
  next
    fix j s assume "0 \<le> j" "j \<le> H - 1" "?Q (0, j) s"
    then show "?Q (0, j + 1) (fold (?tile j) [0..W - 1] s)"
      by (intro row) auto
  qed
  then have "?Q (0, H) (GetFrameWOZB_plane e gwt pfp pitch W H sb dst)"
    unfolding GetFrameWOZB_plane_def B steps_from_unit by simp
  moreover have "before (x, y) (0, H)" using p by (auto simp: before_def frame_px_def)
  ultimately show ?thesis using p by auto
qed

text \<open>
  With block radii 0 and scratch buffers at hand, one plane of the block computation and
  one plane of the pixel computation give the same output sample at every pixel.
\<close>

lemma WOZB_plane_matches_WOZ_plane:
  assumes "TNLMeans_new alloc ax ay az sx sy 0 0 av hv sd vinfo nthreads mem = Inr e"
    and "(x, y) \<in> frame_px W H" and "W \<le> pitch"
  shows "snd (GetFrameWOZB_plane e gwt pfp pitch W H sb dst) (y * pitch + x)
       = snd (GetFrameWOZ_plane e gwt pfp pitch W H sd0 dst') (y * pitch + x)"
proof -
  from TNLMeans_new_block0 [OF assms(1)]
  have B: "Bx e = 0" "By e = 0" "Bxd e = 1" "Byd e = 1" "Bxa e = 1" by simp_all
  show ?thesis
    unfolding WOZB_plane_closed0 [OF B assms(2,3)] WOZ_plane_closed(1) [OF assms(2,3)] ..
qed

section \<open>Block radii 0: the pixel variant runs, the block variant cannot\<close>







section \<open>Reads stay inside the frame\<close>

lemma patch_reads_bounds:
  assumes "(s1, s2) \<in> set (patch_reads e hm wm x y u v)"
  shows "0 \<le> fst s1 \<and> fst s1 \<le> wm \<and> 0 \<le> snd s1 \<and> snd s1 \<le> hm
       \<and> 0 \<le> fst s2 \<and> fst s2 \<le> wm \<and> 0 \<le> snd s2 \<and> snd s2 \<le> hm"
proof -
  from assms obtain j k where
    j: "clip_lo (Sy e) u y \<le> j" "j \<le> clip_hi (Sy e) hm u y"
    and k: "clip_lo (Sx e) v x \<le> k" "k \<le> clip_hi (Sx e) wm v x"
    and s: "s1 = (v + k, u + j)" "s2 = (x + k, y + j)"
    unfolding patch_reads_def set_concat set_map by auto
  from j have "- u \<le> j" "- y \<le> j" "j \<le> hm - u" "j \<le> hm - y"
    by (auto simp: clip_lo_def clip_hi_def)
  moreover from k have "- v \<le> k" "- x \<le> k" "k \<le> wm - v" "k \<le> wm - x"
    by (auto simp: clip_lo_def clip_hi_def)
  ultimately show ?thesis unfolding s by simp
qed

lemma smear_reads_bounds:
  assumes "s \<in> set (smear_reads e hm wm x y u v)" and "Bx e \<le> v" and "By e \<le> u"
  shows "0 \<le> fst s \<and> fst s \<le> wm \<and> 0 \<le> snd s \<and> snd s \<le> hm"
proof -
  from assms(1) obtain j k where
    j: "- By e \<le> j" "j \<le> clip_hi (By e) hm u y"
    and k: "- Bx e \<le> k" "k \<le> clip_hi (Bx e) wm v x"
    and s: "s = (v + k, u + j)"
    unfolding smear_reads_def set_concat set_map by auto
  from j have "j \<le> hm - u" by (auto simp: clip_hi_def)
  moreover from k have "k \<le> wm - v" by (auto simp: clip_hi_def)
  ultimately show ?thesis unfolding s using j(1) k(1) assms(2,3) by simp
qed

lemma finish_reads_bounds:
  assumes "s \<in> set (finish_reads e W H x y)" and "Bx e \<le> x" and "By e \<le> y"
  shows "0 \<le> fst s \<and> fst s < W \<and> 0 \<le> snd s \<and> snd s < H"
proof -
  from assms(1) obtain j k where
    j: "0 \<le> j" "j \<le> min (Byd e) (H - y + By e) - 1"
    and k: "0 \<le> k" "k \<le> min (Bxd e) (W - x + Bx e) - 1"
    and s: "s = (x - Bx e + k, y - By e + j)"
    unfolding finish_reads_def set_concat set_map by auto
  show ?thesis unfolding s using j k assms(2,3) by simp
qed

lemma steps_from_ge: "s \<in> set (steps_from a b st) \<Longrightarrow> a \<le> s"
proof (induction a b st rule: steps_from.induct)
  case (1 y bound step)
  show ?case
  proof (cases "y < bound \<and> 0 < step")
    case True
    with "1.prems" have "s = y \<or> s \<in> set (steps_from (y + step) bound step)"
      by (subst (asm) steps_from.simps) simp
    with "1.IH" [OF True] True show ?thesis by auto
  next
    case False
    with "1.prems" show ?thesis by (subst (asm) steps_from.simps) simp
  qed
qed

lemma patch_reads_frame:
  assumes "s \<in> set (patch_reads e (H - 1) (W - 1) x y u v)"
  shows "fst s \<in> frame_px W H \<and> snd s \<in> frame_px W H"
proof -
  obtain s1 s2 where s: "s = (s1, s2)" by (cases s)
  from patch_reads_bounds [OF assms [unfolded s]] show ?thesis
    unfolding s by (cases s1; cases s2) (simp add: frame_px_def)
qed

lemma cand_reads_frame:
  assumes "r \<in> set (cand_reads e (H - 1) (W - 1) zs zc x y u v)"
    and "(x, y) \<in> frame_px W H" and "(v, u) \<in> frame_px W H"
  shows "snd r \<in> frame_px W H \<and> (fst r = zs \<or> fst r = zc)"
proof -
  from assms(1) have "r = (zs, (v, u)) \<or> r = (zc, (x, y))
      \<or> (\<exists>s \<in> set (patch_reads e (H - 1) (W - 1) x y u v). r = (zs, fst s) \<or> r = (zc, snd s))"
    unfolding cand_reads_def by auto
  with assms(2,3) patch_reads_frame [of _ e H W x y u v] show ?thesis by auto
qed

lemma block_cand_reads_frame:
  assumes "r \<in> set (block_cand_reads e (H - 1) (W - 1) zs zc x y u v)"
    and "Bx e \<le> v" and "By e \<le> u"
  shows "snd r \<in> frame_px W H \<and> (fst r = zs \<or> fst r = zc)"
proof -
  from assms(1) have "(\<exists>s \<in> set (smear_reads e (H - 1) (W - 1) x y u v). r = (zs, s))
      \<or> (\<exists>s \<in> set (patch_reads e (H - 1) (W - 1) x y u v). r = (zs, fst s) \<or> r = (zc, snd s))"
    unfolding block_cand_reads_def by (auto split: if_splits)
  moreover have "s \<in> frame_px W H" if "s \<in> set (smear_reads e (H - 1) (W - 1) x y u v)" for s
    using smear_reads_bounds [OF that assms(2,3)] by (cases s) (simp add: frame_px_def)
  ultimately show ?thesis using patch_reads_frame [of _ e H W x y u v] by auto
qed

lemma finish_reads_frame:
  assumes "s \<in> set (finish_reads e W H x y)" and "Bx e \<le> x" and "By e \<le> y"
  shows "s \<in> frame_px W H"
  using finish_reads_bounds [OF assms] by (cases s) (simp add: frame_px_def)

lemma WOZ_cands_frame:
  assumes "(x, y) \<in> frame_px W H" and "q \<in> set (WOZ_cands e W H x y)"
  shows "q \<in> frame_px W H"
  using assms(2) unfolding set_WOZ_cands [OF assms(1)] using nbrs_frame by blast

lemma set_WZ_cands_mem:
  "((v, u) \<in> set (WZ_cands e W H z x y)) =
     ((if z = Az e then y else max (y - Ay e) 0) \<le> u \<and> u \<le> min (y + Ay e) (H - 1)
      \<and> (if u = y \<and> z = Az e then x + 1 else max (x - Ax e) 0) \<le> v \<and> v \<le> min (x + Ax e) (W - 1))"
  unfolding WZ_cands_def set_concat set_map by (auto simp: image_iff)

lemma WZ_cands_frame:
  assumes p: "(x, y) \<in> frame_px W H" and q: "q \<in> set (WZ_cands e W H z x y)"
  shows "q \<in> frame_px W H"
proof -
  obtain v u where vu: "q = (v, u)" by (cases q)
  from p have b: "0 \<le> x" "x < W" "0 \<le> y" "y < H" by (simp_all add: frame_px_def)
  from q have "(v, u) \<in> set (WZ_cands e W H z x y)" unfolding vu .
  then show ?thesis
    unfolding vu set_WZ_cands_mem frame_px_def using b by (simp split: if_splits)
qed

lemma set_block_cands_mem:
  "((v, u) \<in> set (block_cands e W H x y)) =
     (max (y - Ay e) (By e) \<le> u \<and> u \<le> min (y + Ay e) (H - 1 - min (By e) (H - 1 - y))
      \<and> max (x - Ax e) (Bx e) \<le> v \<and> v \<le> min (x + Ax e) (W - 1 - min (Bx e) (W - 1 - x)))"
  unfolding block_cands_def set_concat set_map by (auto simp: image_iff)

lemma block_cands_ge:
  assumes "q \<in> set (block_cands e W H x y)"
  shows "Bx e \<le> fst q \<and> By e \<le> snd q"
proof -
  obtain v u where vu: "q = (v, u)" by (cases q)
  from assms have "(v, u) \<in> set (block_cands e W H x y)" unfolding vu .
  then show ?thesis unfolding vu set_block_cands_mem by simp
qed

lemma tile_centres_ge:
  assumes "p \<in> set (tile_centres e W H)"
  shows "Bx e \<le> fst p \<and> By e \<le> snd p"
  using assms steps_from_ge unfolding tile_centres_def set_concat set_map by fastforce

lemma WOZ_pixel_reads_frame:
  assumes p: "(x, y) \<in> frame_px W H" and r: "r \<in> set (WOZ_pixel_reads e W H x y)"
  shows "fst r = 0 \<and> snd r \<in> frame_px W H"
proof -
  from r have "r = (0, (x, y))
      \<or> (\<exists>q \<in> set (WOZ_cands e W H x y). r \<in> set (cand_reads e (H - 1) (W - 1) 0 0 x y (snd q) (fst q)))"
    unfolding WOZ_pixel_reads_def by auto
  then show ?thesis
  proof
    assume "r = (0, (x, y))"
    with p show ?thesis by simp
  next
    assume "\<exists>q \<in> set (WOZ_cands e W H x y). r \<in> set (cand_reads e (H - 1) (W - 1) 0 0 x y (snd q) (fst q))"
    then obtain q where q: "q \<in> set (WOZ_cands e W H x y)"
      and rq: "r \<in> set (cand_reads e (H - 1) (W - 1) 0 0 x y (snd q) (fst q))" by blast
    from WOZ_cands_frame [OF p q] have "(fst q, snd q) \<in> frame_px W H" by simp
    from cand_reads_frame [OF rq p this] show ?thesis by auto
  qed
qed

lemma startz_stopz_range:
  assumes "startz r n \<le> z" "z \<le> stopz r N n"
  shows "0 \<le> z \<and> z \<le> 2 * r"
  using assms by (auto simp: startz_def stopz_def)

lemma WZ_pixel_reads_frame:
  assumes p: "(x, y) \<in> frame_px W H" and r: "r \<in> set (WZ_pixel_reads e W H N n x y)"
  shows "snd r \<in> frame_px W H \<and> (0 \<le> Az e \<longrightarrow> 0 \<le> fst r \<and> fst r \<le> 2 * Az e)"
proof -
  from r have "r = (Az e, (x, y))
      \<or> (\<exists>z \<in> set [startz (Az e) n..stopz (Az e) N n]. \<exists>q \<in> set (WZ_cands e W H z x y).
            r \<in> set (cand_reads e (H - 1) (W - 1) z (Az e) x y (snd q) (fst q)))"
    unfolding WZ_pixel_reads_def by auto
  then show ?thesis
  proof
    assume "r = (Az e, (x, y))"
    with p show ?thesis by simp
  next
    assume "\<exists>z \<in> set [startz (Az e) n..stopz (Az e) N n]. \<exists>q \<in> set (WZ_cands e W H z x y).
            r \<in> set (cand_reads e (H - 1) (W - 1) z (Az e) x y (snd q) (fst q))"
    then obtain z q where z: "startz (Az e) n \<le> z" "z \<le> stopz (Az e) N n"
      and q: "q \<in> set (WZ_cands e W H z x y)"
      and rq: "r \<in> set (cand_reads e (H - 1) (W - 1) z (Az e) x y (snd q) (fst q))" by auto
    from WZ_cands_frame [OF p q] have "(fst q, snd q) \<in> frame_px W H" by simp
    from cand_reads_frame [OF rq p this] startz_stopz_range [OF z] show ?thesis by auto
  qed
qed

lemma WOZB_tile_reads_frame:
  assumes p: "(x, y) \<in> set (tile_centres e W H)" and r: "r \<in> set (WOZB_tile_reads e W H x y)"
  shows "fst r = 0 \<and> snd r \<in> frame_px W H"
proof -
  from tile_centres_ge [OF p] have c: "Bx e \<le> x" "By e \<le> y" by simp_all
  from r have "(\<exists>s \<in> set (finish_reads e W H x y). r = (0, s))
      \<or> (\<exists>q \<in> set (block_cands e W H x y).
            r \<in> set (block_cand_reads e (H - 1) (W - 1) 0 0 x y (snd q) (fst q)))"
    unfolding WOZB_tile_reads_def by auto
  then show ?thesis
  proof
    assume "\<exists>s \<in> set (finish_reads e W H x y). r = (0, s)"
    with finish_reads_frame [OF _ c] show ?thesis by auto
  next
    assume "\<exists>q \<in> set (block_cands e W H x y).
            r \<in> set (block_cand_reads e (H - 1) (W - 1) 0 0 x y (snd q) (fst q))"
    then obtain q where q: "q \<in> set (block_cands e W H x y)"
      and rq: "r \<in> set (block_cand_reads e (H - 1) (W - 1) 0 0 x y (snd q) (fst q))" by blast
    from block_cands_ge [OF q] have "Bx e \<le> fst q" "By e \<le> snd q" by simp_all
    from block_cand_reads_frame [OF rq this] show ?thesis by auto
  qed
qed

lemma WZB_tile_reads_frame:
  assumes p: "(x, y) \<in> set (tile_centres e W H)" and r: "r \<in> set (WZB_tile_reads e W H N n x y)"
  shows "snd r \<in> frame_px W H \<and> (0 \<le> Az e \<longrightarrow> 0 \<le> fst r \<and> fst r \<le> 2 * Az e)"
proof -
  from tile_centres_ge [OF p] have c: "Bx e \<le> x" "By e \<le> y" by simp_all
  from r have "(\<exists>s \<in> set (finish_reads e W H x y). r = (Az e, s))
      \<or> (\<exists>z \<in> set [startz (Az e) n..stopz (Az e) N n]. \<exists>q \<in> set (block_cands e W H x y).
            r \<in> set (block_cand_reads e (H - 1) (W - 1) z (Az e) x y (snd q) (fst q)))"
    unfolding WZB_tile_reads_def by auto
  then show ?thesis
  proof
    assume "\<exists>s \<in> set (finish_reads e W H x y). r = (Az e, s)"
    with finish_reads_frame [OF _ c] show ?thesis by auto
  next
    assume "\<exists>z \<in> set [startz (Az e) n..stopz (Az e) N n]. \<exists>q \<in> set (block_cands e W H x y).
            r \<in> set (block_cand_reads e (H - 1) (W - 1) z (Az e) x y (snd q) (fst q))"
    then obtain z q where z: "startz (Az e) n \<le> z" "z \<le> stopz (Az e) N n"
      and q: "q \<in> set (block_cands e W H x y)"
      and rq: "r \<in> set (block_cand_reads e (H - 1) (W - 1) z (Az e) x y (snd q) (fst q))" by auto
    from block_cands_ge [OF q] have "Bx e \<le> fst q" "By e \<le> snd q" by simp_all
    from block_cand_reads_frame [OF rq this] startz_stopz_range [OF z] show ?thesis by auto
  qed
qed

text \<open>
  C8.  In all four variants every sample read while a target pixel (pixel variants) or a
  tile (block variants) is processed lies inside the plane: its column is in
  \<open>[0, width - 1]\<close> and its row in \<open>[0, height - 1]\<close>; in the temporal variants the frame
  read is at a position of the window, \<open>[0, 2 * Az]\<close>.  The same holds for all reads of a
  plane.
\<close>

theorem reads_inside_frame:
  "(\<forall>p \<in> frame_px W H. \<forall>r \<in> set (WOZ_pixel_reads e W H (fst p) (snd p)).
        0 \<le> fst (snd r) \<and> fst (snd r) < W \<and> 0 \<le> snd (snd r) \<and> snd (snd r) < H)
   \<and> (\<forall>p \<in> frame_px W H. \<forall>r \<in> set (WZ_pixel_reads e W H N n (fst p) (snd p)).
        0 \<le> fst (snd r) \<and> fst (snd r) < W \<and> 0 \<le> snd (snd r) \<and> snd (snd r) < H
        \<and> (0 \<le> Az e \<longrightarrow> 0 \<le> fst r \<and> fst r \<le> 2 * Az e))
   \<and> (\<forall>p \<in> set (tile_centres e W H). \<forall>r \<in> set (WOZB_tile_reads e W H (fst p) (snd p)).
        0 \<le> fst (snd r) \<and> fst (snd r) < W \<and> 0 \<le> snd (snd r) \<and> snd (snd r) < H)
   \<and> (\<forall>p \<in> set (tile_centres e W H). \<forall>r \<in> set (WZB_tile_reads e W H N n (fst p) (snd p)).
        0 \<le> fst (snd r) \<and> fst (snd r) < W \<and> 0 \<le> snd (snd r) \<and> snd (snd r) < H
        \<and> (0 \<le> Az e \<longrightarrow> 0 \<le> fst r \<and> fst r \<le> 2 * Az e))
   \<and> (\<forall>r \<in> set (WOZ_reads e W H).
        0 \<le> fst (snd r) \<and> fst (snd r) < W \<and> 0 \<le> snd (snd r) \<and> snd (snd r) < H)
   \<and> (\<forall>r \<in> set (WZ_reads e W H N n).
        0 \<le> fst (snd r) \<and> fst (snd r) < W \<and> 0 \<le> snd (snd r) \<and> snd (snd r) < H)
   \<and> (\<forall>r \<in> set (WOZB_reads e W H).
        0 \<le> fst (snd r) \<and> fst (snd r) < W \<and> 0 \<le> snd (snd r) \<and> snd (snd r) < H)
   \<and> (\<forall>r \<in> set (WZB_reads e W H N n).
        0 \<le> fst (snd r) \<and> fst (snd r) < W \<and> 0 \<le> snd (snd r) \<and> snd (snd r) < H)"
proof -
  have fr: "0 \<le> fst s \<and> fst s < W \<and> 0 \<le> snd s \<and> snd s < H" if "s \<in> frame_px W H" for s
    using that by (cases s) (simp add: frame_px_def)
  have a: "\<forall>p \<in> frame_px W H. \<forall>r \<in> set (WOZ_pixel_reads e W H (fst p) (snd p)).
        0 \<le> fst (snd r) \<and> fst (snd r) < W \<and> 0 \<le> snd (snd r) \<and> snd (snd r) < H"
  proof (intro ballI)
    fix p r assume p: "p \<in> frame_px W H" and r: "r \<in> set (WOZ_pixel_reads e W H (fst p) (snd p))"
    from p have "(fst p, snd p) \<in> frame_px W H" by simp
    from WOZ_pixel_reads_frame [OF this r] fr [of "snd r"]
    show "0 \<le> fst (snd r) \<and> fst (snd r) < W \<and> 0 \<le> snd (snd r) \<and> snd (snd r) < H" by blast
  qed
  have b: "\<forall>p \<in> frame_px W H. \<forall>r \<in> set (WZ_pixel_reads e W H N n (fst p) (snd p)).
        0 \<le> fst (snd r) \<and> fst (snd r) < W \<and> 0 \<le> snd (snd r) \<and> snd (snd r) < H
        \<and> (0 \<le> Az e \<longrightarrow> 0 \<le> fst r \<and> fst r \<le> 2 * Az e)"
  proof (intro ballI)
    fix p r assume p: "p \<in> frame_px W H" and r: "r \<in> set (WZ_pixel_reads e W H N n (fst p) (snd p))"
    from p have "(fst p, snd p) \<in> frame_px W H" by simp
    from WZ_pixel_reads_frame [OF this r] fr [of "snd r"]
    show "0 \<le> fst (snd r) \<and> fst (snd r) < W \<and> 0 \<le> snd (snd r) \<and> snd (snd r) < H
        \<and> (0 \<le> Az e \<longrightarrow> 0 \<le> fst r \<and> fst r \<le> 2 * Az e)" by blast
  qed
  have c: "\<forall>p \<in> set (tile_centres e W H). \<forall>r \<in> set (WOZB_tile_reads e W H (fst p) (snd p)).
        0 \<le> fst (snd r) \<and> fst (snd r) < W \<and> 0 \<le> snd (snd r) \<and> snd (snd r) < H"
  proof (intro ballI)
    fix p r assume p: "p \<in> set (tile_centres e W H)" and r: "r \<in> set (WOZB_tile_reads e W H (fst p) (snd p))"
    from p have "(fst p, snd p) \<in> set (tile_centres e W H)" by simp
    from WOZB_tile_reads_frame [OF this r] fr [of "snd r"]
    show "0 \<le> fst (snd r) \<and> fst (snd r) < W \<and> 0 \<le> snd (snd r) \<and> snd (snd r) < H" by blast
  qed
  have d: "\<forall>p \<in> set (tile_centres e W H). \<forall>r \<in> set (WZB_tile_reads e W H N n (fst p) (snd p)).
        0 \<le> fst (snd r) \<and> fst (snd r) < W \<and> 0 \<le> snd (snd r) \<and> snd (snd r) < H
        \<and> (0 \<le> Az e \<longrightarrow> 0 \<le> fst r \<and> fst r \<le> 2 * Az e)"
  proof (intro ballI)
    fix p r assume p: "p \<in> set (tile_centres e W H)" and r: "r \<in> set (WZB_tile_reads e W H N n (fst p) (snd p))"
    from p have "(fst p, snd p) \<in> set (tile_centres e W H)" by simp
    from WZB_tile_reads_frame [OF this r] fr [of "snd r"]
    show "0 \<le> fst (snd r) \<and> fst (snd r) < W \<and> 0 \<le> snd (snd r) \<and> snd (snd r) < H
        \<and> (0 \<le> Az e \<longrightarrow> 0 \<le> fst r \<and> fst r \<le> 2 * Az e)" by blast
  qed
  have a': "\<forall>r \<in> set (WOZ_reads e W H).
        0 \<le> fst (snd r) \<and> fst (snd r) < W \<and> 0 \<le> snd (snd r) \<and> snd (snd r) < H"
    using a unfolding WOZ_reads_def set_concat set_map set_raster by blast
  have b': "\<forall>r \<in> set (WZ_reads e W H N n).
        0 \<le> fst (snd r) \<and> fst (snd r) < W \<and> 0 \<le> snd (snd r) \<and> snd (snd r) < H"
    using b unfolding WZ_reads_def set_concat set_map set_raster by blast
  have c': "\<forall>r \<in> set (WOZB_reads e W H).
        0 \<le> fst (snd r) \<and> fst (snd r) < W \<and> 0 \<le> snd (snd r) \<and> snd (snd r) < H"
    using c unfolding WOZB_reads_def set_concat set_map by blast
  have d': "\<forall>r \<in> set (WZB_reads e W H N n).
        0 \<le> fst (snd r) \<and> fst (snd r) < W \<and> 0 \<le> snd (snd r) \<and> snd (snd r) < H"
    using d unfolding WZB_reads_def set_concat set_map by blast
  show ?thesis
    by (intro conjI) (fact a b c d a' b' c' d')+
qed

theorem reads_inside_frame_witness:
  "(0, 0) \<in> frame_px 8 8
   \<and> (0, (3, 3)) \<in> set (WOZ_pixel_reads (example_engine\<lparr> Ax := 3, Ay := 3, Sx := 3, Sy := 3 \<rparr>) 8 8 0 0)
   \<and> list_all (\<lambda>r. 0 \<le> fst (snd r) \<and> fst (snd r) < 8 \<and> 0 \<le> snd (snd r) \<and> snd (snd r) < 8)
        (WOZ_pixel_reads (example_engine\<lparr> Ax := 3, Ay := 3, Sx := 3, Sy := 3 \<rparr>) 8 8 0 0)
   \<and> list_all (\<lambda>r. 0 \<le> fst (snd r) \<and> fst (snd r) < 8 \<and> 0 \<le> snd (snd r) \<and> snd (snd r) < 8)
        (WZ_pixel_reads (example_engine\<lparr> Ax := 3, Ay := 3, Sx := 3, Sy := 3 \<rparr>) 8 8 5 2 0 0)
   \<and> (0, 0) \<in> set (tile_centres (example_engine\<lparr> Ax := 3, Ay := 3, Sx := 3, Sy := 3 \<rparr>) 8 8)
   \<and> list_all (\<lambda>r. 0 \<le> fst (snd r) \<and> fst (snd r) < 8 \<and> 0 \<le> snd (snd r) \<and> snd (snd r) < 8)
        (WOZB_tile_reads (example_engine\<lparr> Ax := 3, Ay := 3, Sx := 3, Sy := 3 \<rparr>) 8 8 0 0)
   \<and> list_all (\<lambda>r. 0 \<le> fst (snd r) \<and> fst (snd r) < 8 \<and> 0 \<le> snd (snd r) \<and> snd (snd r) < 8)
        (WZB_tile_reads (example_engine\<lparr> Ax := 3, Ay := 3, Sx := 3, Sy := 3 \<rparr>) 8 8 5 2 0 0)"
proof -
  let ?e = "example_engine\<lparr> Ax := 3, Ay := 3, Sx := 3, Sy := 3 \<rparr>"
  have f: "(0, 0) \<in> frame_px 8 8" by (simp add: frame_px_def)
  have e: "Ax ?e = 3" "Ay ?e = 3" "Bx ?e = 0" "By ?e = 0" "Bxd ?e = 1" "Byd ?e = 1"
    by (simp_all add: example_engine_def)
  have c: "(3, 3) \<in> set (WOZ_cands ?e 8 8 0 0)"
    unfolding set_WOZ_cands_mem e by simp
  have m: "(0, (3, 3)) \<in> set (WOZ_pixel_reads ?e 8 8 0 0)"
    unfolding WOZ_pixel_reads_def cand_reads_def using c by force
  have t: "(0, 0) \<in> set (tile_centres ?e 8 8)"
    unfolding tile_centres_def e steps_from_unit by (auto simp: image_iff)
  note r = reads_inside_frame [of 8 8 ?e 5 2]
  note r1 = r [THEN conjunct1]
  note r2 = r [THEN conjunct2, THEN conjunct1]
  note r3 = r [THEN conjunct2, THEN conjunct2, THEN conjunct1]
  note r4 = r [THEN conjunct2, THEN conjunct2, THEN conjunct2, THEN conjunct1]
  from bspec [OF r1 f]
  have 1: "list_all (\<lambda>r. 0 \<le> fst (snd r) \<and> fst (snd r) < 8 \<and> 0 \<le> snd (snd r) \<and> snd (snd r) < 8)
        (WOZ_pixel_reads ?e 8 8 0 0)" by (simp add: list_all_iff)
  from bspec [OF r2 f]
  have 2: "list_all (\<lambda>r. 0 \<le> fst (snd r) \<and> fst (snd r) < 8 \<and> 0 \<le> snd (snd r) \<and> snd (snd r) < 8)
        (WZ_pixel_reads ?e 8 8 5 2 0 0)" by (simp add: list_all_iff)
  from bspec [OF r3 t]
  have 3: "list_all (\<lambda>r. 0 \<le> fst (snd r) \<and> fst (snd r) < 8 \<and> 0 \<le> snd (snd r) \<and> snd (snd r) < 8)
        (WOZB_tile_reads ?e 8 8 0 0)" by (simp add: list_all_iff)
  from bspec [OF r4 t]
  have 4: "list_all (\<lambda>r. 0 \<le> fst (snd r) \<and> fst (snd r) < 8 \<and> 0 \<le> snd (snd r) \<and> snd (snd r) < 8)
        (WZB_tile_reads ?e 8 8 5 2 0 0)" by (simp add: list_all_iff)
  show ?thesis
    by (intro conjI) (fact f m t 1 2 3 4)+
qed

end
